theory Spec2Isabelle
  imports Main "HOL-Library.AList" "HOL-Library.Sublist"
begin

section \<open>Errors and the HTTP boundary\<close>

text \<open>
  Everything the plugin can throw is a value of \<open>error\<close>:
  \<^item> \<open>HttpError status headers\<close> is the object \<open>requestUrl\<close> rejects with; a network
    failure carries no status (\<open>None\<close>), and an absent \<open>headers\<close> object is the empty list;
  \<^item> \<open>Error msg\<close> is \<open>new Error(msg)\<close>;
  \<^item> \<open>RangeError\<close> is what \<open>toISOString\<close> throws on an invalid date;
  \<^item> \<open>StoreError\<close> is a rejected vault or adapter operation.
\<close>

datatype error =
    HttpError "int option" "(string \<times> string) list"
  | Error string
  | RangeError
  | StoreError string

fun errStatus :: "error \<Rightarrow> int option" where
  "errStatus (HttpError st hs) = st"
| "errStatus e = None"

fun errHeader :: "error \<Rightarrow> string \<Rightarrow> string option" where
  "errHeader (HttpError st hs) k = map_of hs k"
| "errHeader e k = None"

text \<open>
  One call of \<open>requestUrl\<close> either resolves with a response, whose \<open>json\<close> is
  \<open>None\<close> when it is falsy, or rejects.
\<close>

datatype 'j outcome = Responded "'j option" | Threw error

type_synonym query = "(string \<times> string) list"

text \<open>
  The platform the plugin runs on, as far as the code reads it:
  \<^item> \<open>requestUrl url params k\<close> is the outcome of the \<open>k\<close>-th call (from 0) of
    \<open>requestUrl\<close> for that URL and query;
  \<^item> \<open>dateParse s\<close> is \<open>new Date(s).getTime()\<close>, \<open>None\<close> for NaN (an Invalid Date);
  \<^item> \<open>clock k\<close> is \<open>new Date().getTime()\<close> read while the \<open>k\<close>-th call is handled;
  \<^item> \<open>timeZone\<close> is \<open>Intl.DateTimeFormat().resolvedOptions().timeZone\<close>;
  \<^item> \<open>utcOffset\<close> is the offset of local time from UTC in milliseconds; the model
    fixes a zone whose offset does not change (no daylight saving transitions);
  \<^item> \<open>localeString d\<close> is \<open>d.toLocaleString()\<close> in the user's default locale;
  \<^item> \<open>normalizePath\<close> is Obsidian's function of that name.
\<close>

record 'j platform =
  requestUrl :: "string \<Rightarrow> query \<Rightarrow> nat \<Rightarrow> 'j outcome"
  dateParse :: "string \<Rightarrow> int option"
  clock :: "nat \<Rightarrow> int"
  timeZone :: string
  utcOffset :: int
  localeString :: "int option \<Rightarrow> string"
  normalizePath :: "string \<Rightarrow> string"

section \<open>parseInt(s, 10)\<close>

definition isDigit :: "char \<Rightarrow> bool" where
  "isDigit c = (48 \<le> (of_char c :: nat) \<and> (of_char c :: nat) \<le> 57)"

definition isWhiteSpace :: "char \<Rightarrow> bool" where
  "isWhiteSpace c = ((of_char c :: nat) \<in> {9, 10, 11, 12, 13, 32})"

fun digitsValue :: "int \<Rightarrow> string \<Rightarrow> int" where
  "digitsValue acc [] = acc"
| "digitsValue acc (c # cs) = digitsValue (acc * 10 + (int (of_char c) - 48)) cs"

text \<open>
  \<open>parseInt\<close> with radix 10: leading white space is dropped, one sign is read, then the
  longest run of decimal digits; no digit at all is NaN, here \<open>None\<close>. The value is the
  exact integer (JavaScript rounds it beyond \<open>2^53\<close>), and the white space is that of
  ASCII.
\<close>

definition parseInt10 :: "string \<Rightarrow> int option" where
  "parseInt10 s =
     (let t = dropWhile isWhiteSpace s;
          neg = (t \<noteq> [] \<and> hd t = CHR ''-'');
          u = (if t \<noteq> [] \<and> (hd t = CHR ''-'' \<or> hd t = CHR ''+'') then tl t else t);
          ds = takeWhile isDigit u
      in if ds = [] then None
         else Some (if neg then - digitsValue 0 ds else digitsValue 0 ds))"

section \<open>makeRequest\<close>

definition maxRetries :: nat where
  "maxRetries = 5"

definition retryDelay :: int where
  "retryDelay = 1000"

text \<open>
  The delay computed in the \<open>catch\<close> block of \<open>makeRequest\<close>, in milliseconds;
  \<open>None\<close> is NaN (a \<open>retry-after\<close> value that is neither a number nor a date).
\<close>

definition backoffDelay :: "'j platform \<Rightarrow> nat \<Rightarrow> error \<Rightarrow> int option" where
  "backoffDelay P retries e =
     (case errHeader e ''retry-after'' of
        None \<Rightarrow> Some (retryDelay * 2 ^ retries)
      | Some retryAfter \<Rightarrow>
          if retryAfter = [] then Some (retryDelay * 2 ^ retries)
          else (case parseInt10 retryAfter of
                  Some retryAfterSeconds \<Rightarrow> Some (retryAfterSeconds * 1000)
                | None \<Rightarrow>
                    (case dateParse P retryAfter of
                       None \<Rightarrow> None
                     | Some retryAfterDate \<Rightarrow> Some (retryAfterDate - clock P retries))))"

text \<open>The \<open>try\<close> block: the JSON body, or the error that reaches the \<open>catch\<close>.\<close>

fun tryRequest :: "'j outcome \<Rightarrow> error + 'j" where
  "tryRequest (Responded None) = Inl (Error ''Invalid response format'')"
| "tryRequest (Responded (Some j)) = Inr j"
| "tryRequest (Threw e) = Inl e"

text \<open>
  What a call of \<open>makeRequest\<close> leaves behind: the value returned or the error thrown,
  the delays it waited for in order, and the final value of \<open>retries\<close>.
\<close>

record 'j requestResult =
  reqResult :: "error + 'j"
  reqWaits :: "int option list"
  reqRetries :: nat

function makeRequestLoop ::
  "'j platform \<Rightarrow> string \<Rightarrow> query \<Rightarrow> nat \<Rightarrow> int option list \<Rightarrow> 'j requestResult" where
  "makeRequestLoop P url params retries ws =
     (case tryRequest (requestUrl P url params retries) of
        Inr j \<Rightarrow> \<lparr>reqResult = Inr j, reqWaits = ws, reqRetries = retries\<rparr>
      | Inl e \<Rightarrow>
          if errStatus e = Some 429 \<and> retries < maxRetries
          then makeRequestLoop P url params (Suc retries) (ws @ [backoffDelay P retries e])
          else \<lparr>reqResult = Inl e, reqWaits = ws, reqRetries = retries\<rparr>)"
  by pat_completeness auto
termination
  by (relation "measure (\<lambda>(P, url, params, retries, ws). maxRetries - retries)") auto

declare makeRequestLoop.simps [simp del]

definition makeRequest :: "'j platform \<Rightarrow> string \<Rightarrow> query \<Rightarrow> 'j requestResult" where
  "makeRequest P url params = makeRequestLoop P url params 0 []"

section \<open>Strings and numbers as JavaScript prints them\<close>

text \<open>\<open>Array.prototype.join\<close>.\<close>

fun joinWith :: "string \<Rightarrow> string list \<Rightarrow> string" where
  "joinWith sep [] = []"
| "joinWith sep [x] = x"
| "joinWith sep (x # y # ys) = x @ sep @ joinWith sep (y # ys)"

text \<open>\<open>String.prototype.startsWith\<close> and \<open>endsWith\<close>.\<close>

definition startsWith :: "string \<Rightarrow> string \<Rightarrow> bool" where
  "startsWith s p = (take (length p) s = p)"

definition endsWith :: "string \<Rightarrow> string \<Rightarrow> bool" where
  "endsWith s p = (length p \<le> length s \<and> drop (length s - length p) s = p)"

text \<open>
  \<open>String.prototype.replaceAll\<close> with a string pattern: the matches are taken from the
  left and do not overlap. (The code only calls it with a non-empty pattern.)
\<close>

function replaceAll :: "string \<Rightarrow> string \<Rightarrow> string \<Rightarrow> string" where
  "replaceAll pat rep [] = []"
| "replaceAll pat rep (c # cs) =
     (if pat \<noteq> [] \<and> startsWith (c # cs) pat
      then rep @ replaceAll pat rep (drop (length pat) (c # cs))
      else c # replaceAll pat rep cs)"
  by pat_completeness auto
termination
  by (relation "measure (\<lambda>(pat, rep, s). length s)") (auto simp: neq_Nil_conv)

text \<open>Decimal digits of a number, as \<open>String(n)\<close> and template literals print an integer.\<close>

definition digitChar :: "nat \<Rightarrow> char" where
  "digitChar n = ''0123456789'' ! (n mod 10)"

function showNat :: "nat \<Rightarrow> string" where
  "showNat n = (if n < 10 then [digitChar n] else showNat (n div 10) @ [digitChar (n mod 10)])"
  by pat_completeness auto
termination
  by (relation "measure id") auto

declare showNat.simps [simp del]

definition showInt :: "int \<Rightarrow> string" where
  "showInt i = (if i < 0 then CHR ''-'' # showNat (nat (- i)) else showNat (nat i))"

text \<open>\<open>s.padStart(n, '0')\<close>.\<close>

definition padStart0 :: "nat \<Rightarrow> string \<Rightarrow> string" where
  "padStart0 n s = replicate (n - length s) CHR ''0'' @ s"

section \<open>Dates\<close>

text \<open>
  A \<open>Date\<close> is its time value, milliseconds since the epoch, or \<open>None\<close> for an
  Invalid Date. The calendar fields are those of ECMAScript (proleptic Gregorian).
\<close>

type_synonym jsDate = "int option"

definition msPerDay :: int where
  "msPerDay = 86400000"

definition Day :: "int \<Rightarrow> int" where
  "Day t = t div msPerDay"

definition TimeWithinDay :: "int \<Rightarrow> int" where
  "TimeWithinDay t = t mod msPerDay"

text \<open>Year, month (1 to 12) and day of the month of a day number (days since 1970-01-01).\<close>

definition civilFromDays :: "int \<Rightarrow> int \<times> int \<times> int" where
  "civilFromDays days =
     (let z = days + 719468;
          era = z div 146097;
          doe = z mod 146097;
          yoe = (doe - doe div 1460 + doe div 36524 - doe div 146096) div 365;
          y = yoe + era * 400;
          doy = doe - (365 * yoe + yoe div 4 - yoe div 100);
          mp = (5 * doy + 2) div 153;
          d = doy - (153 * mp + 2) div 5 + 1;
          m = (if mp < 10 then mp + 3 else mp - 9)
      in (if m \<le> 2 then y + 1 else y, m, d))"

definition YearFromTime :: "int \<Rightarrow> int" where
  "YearFromTime t = fst (civilFromDays (Day t))"

text \<open>\<open>MonthFromTime\<close> counts from 0, as \<open>getMonth\<close> does.\<close>

definition MonthFromTime :: "int \<Rightarrow> int" where
  "MonthFromTime t = fst (snd (civilFromDays (Day t))) - 1"

definition DateFromTime :: "int \<Rightarrow> int" where
  "DateFromTime t = snd (snd (civilFromDays (Day t)))"

definition HourFromTime :: "int \<Rightarrow> int" where
  "HourFromTime t = TimeWithinDay t div 3600000"

definition MinFromTime :: "int \<Rightarrow> int" where
  "MinFromTime t = (TimeWithinDay t div 60000) mod 60"

text \<open>
  \<open>d.toISOString().split('T')[0]\<close> for a valid date: the UTC calendar date, the year
  with four digits, or a sign and six digits outside 0 to 9999.
\<close>

definition isoYear :: "int \<Rightarrow> string" where
  "isoYear y =
     (if 0 \<le> y \<and> y \<le> 9999 then padStart0 4 (showNat (nat y))
      else (if y < 0 then CHR ''-'' else CHR ''+'') # padStart0 6 (showNat (nat \<bar>y\<bar>)))"

definition isoDate :: "int \<Rightarrow> string" where
  "isoDate t =
     isoYear (YearFromTime t) @ ''-'' @ padStart0 2 (showInt (MonthFromTime t + 1))
       @ ''-'' @ padStart0 2 (showInt (DateFromTime t))"

text \<open>
  \<open>d.toLocaleString('en-US', {month: '2-digit', day: '2-digit', year: '2-digit',
  hour: 'numeric', minute: '2-digit', hour12: true})\<close>: the local date as MM/DD/YY,
  a comma and a space, and the local time on the 12-hour clock with its day period.
  (Recent versions of the locale data separate the day period with the narrow no-break
  space U+202F; the model writes a plain space.)
\<close>

definition toLocaleString_enUS :: "'j platform \<Rightarrow> jsDate \<Rightarrow> string" where
  "toLocaleString_enUS P d =
     (case d of
        None \<Rightarrow> ''Invalid Date''
      | Some t \<Rightarrow>
          (let lt = t + utcOffset P;
               h = HourFromTime lt
           in padStart0 2 (showInt (MonthFromTime lt + 1)) @ ''/''
              @ padStart0 2 (showInt (DateFromTime lt)) @ ''/''
              @ padStart0 2 (showInt (YearFromTime lt mod 100)) @ '', ''
              @ showInt (if h mod 12 = 0 then 12 else h mod 12) @ '':''
              @ padStart0 2 (showInt (MinFromTime lt)) @ '' ''
              @ (if h < 12 then ''AM'' else ''PM'')))"

section \<open>Lifelog renderer\<close>

text \<open>
  A lifelog as the code reads it. An absent \<open>contents\<close> is the empty list (the loop
  over an empty array does nothing either); every node has a \<open>type\<close> and a \<open>content\<close>.
\<close>

record node =
  nodeType :: string
  nodeContent :: string
  speakerName :: "string option"
  startTime :: "string option"

record lifelog =
  markdown :: "string option"
  lifelogTitle :: "string option"
  contents :: "node list"

text \<open>A string is truthy when it is present and not empty.\<close>

fun truthy :: "string option \<Rightarrow> bool" where
  "truthy None = False"
| "truthy (Some s) = (s \<noteq> [])"

text \<open>\<open>x || dflt\<close> on an optional string.\<close>

fun orElse :: "string option \<Rightarrow> string \<Rightarrow> string" where
  "orElse None dflt = dflt"
| "orElse (Some s) dflt = (if s = [] then dflt else s)"

text \<open>The line of a \<open>blockquote\<close> node.\<close>

definition blockquoteMessage :: "'j platform \<Rightarrow> node \<Rightarrow> string" where
  "blockquoteMessage P n =
     (let speaker = orElse (speakerName n) ''Speaker'';
          timestamp =
            (case startTime n of
               None \<Rightarrow> []
             | Some st \<Rightarrow>
                 if st = [] then []
                 else ''('' @ toLocaleString_enUS P (dateParse P st) @ '')'')
      in ''- '' @ speaker @ '' '' @ timestamp @ '': '' @ nodeContent n)"

text \<open>
  The variables of the loop over \<open>lifelog.contents\<close>: the blocks pushed to \<open>content\<close>
  so far, \<open>currentSection\<close> and \<open>sectionMessages\<close>.
\<close>

record renderState =
  rsContent :: "string list"
  currentSection :: string
  sectionMessages :: "string list"

definition renderNode :: "'j platform \<Rightarrow> renderState \<Rightarrow> node \<Rightarrow> renderState" where
  "renderNode P s n =
     (if nodeType n = ''heading2'' then
        \<lparr>rsContent =
           (if currentSection s \<noteq> [] \<and> sectionMessages s \<noteq> []
            then rsContent s @ [''## '' @ currentSection s @ ''\<newline>''] @ sectionMessages s @ [[]]
            else rsContent s),
         currentSection = nodeContent n,
         sectionMessages = []\<rparr>
      else if nodeType n = ''blockquote'' then
        (if currentSection s \<noteq> []
         then s\<lparr>sectionMessages := sectionMessages s @ [blockquoteMessage P n]\<rparr>
         else s\<lparr>rsContent := rsContent s @ [blockquoteMessage P n]\<rparr>)
      else if nodeType n \<noteq> ''heading1'' then
        s\<lparr>rsContent := rsContent s @ [nodeContent n]\<rparr>
      else s)"

text \<open>The flush after the loop.\<close>

definition finalFlush :: "renderState \<Rightarrow> string list" where
  "finalFlush s =
     (if currentSection s \<noteq> [] \<and> sectionMessages s \<noteq> []
      then rsContent s @ [''## '' @ currentSection s @ ''\<newline>''] @ sectionMessages s
      else rsContent s)"

text \<open>The array \<open>content\<close> when \<open>formatLifelogMarkdown\<close> joins it.\<close>

definition lifelogBlocks :: "'j platform \<Rightarrow> lifelog \<Rightarrow> string list" where
  "lifelogBlocks P l =
     finalFlush
       (foldl (renderNode P)
          \<lparr>rsContent =
             (case lifelogTitle l of
                None \<Rightarrow> []
              | Some title \<Rightarrow> if title = [] then [] else [''# '' @ title @ ''\<newline>'']),
           currentSection = [], sectionMessages = []\<rparr>
          (contents l))"

definition formatLifelogMarkdown :: "'j platform \<Rightarrow> lifelog \<Rightarrow> string" where
  "formatLifelogMarkdown P l =
     (case markdown l of
        None \<Rightarrow> joinWith ''\<newline>\<newline>'' (lifelogBlocks P l)
      | Some md \<Rightarrow>
          if md = [] then joinWith ''\<newline>\<newline>'' (lifelogBlocks P l)
          else replaceAll ''\<newline>\<newline>'' ''\<newline>'' md)"

section \<open>The vault\<close>

text \<open>
  The local store: the files by path with their text, the folders, and the paths at which
  the store rejects a write or a folder creation. The file index (\<open>vault.getFiles\<close>) and
  the adapter see the same files.
\<close>

record vault =
  vaultFiles :: "(string \<times> string) list"
  vaultFolders :: "string list"
  readOnly :: "string \<Rightarrow> bool"

text \<open>\<open>adapter.read\<close>: \<open>None\<close> when it rejects (no such file).\<close>

definition adapterRead :: "vault \<Rightarrow> string \<Rightarrow> string option" where
  "adapterRead v path = map_of (vaultFiles v) path"

definition adapterWrite :: "vault \<Rightarrow> string \<Rightarrow> string \<Rightarrow> error + vault" where
  "adapterWrite v path text =
     (if readOnly v path then Inl (StoreError path)
      else Inr (v\<lparr>vaultFiles := AList.update path text (vaultFiles v)\<rparr>))"

definition getFiles :: "vault \<Rightarrow> string list" where
  "getFiles v = map fst (vaultFiles v)"

definition ensureFolderExists :: "vault \<Rightarrow> string \<Rightarrow> error + vault" where
  "ensureFolderExists v path =
     (if path \<in> set (vaultFolders v) then Inr v
      else if readOnly v path then Inl (StoreError path)
      else Inr (v\<lparr>vaultFolders := path # vaultFolders v\<rparr>))"

section \<open>Settings and chats\<close>

text \<open>
  The settings of the plugin. \<open>maxChatsPerSync\<close> is a number the slider of the settings
  tab sets between 1 and 200; the stored value is read without a check, so the model
  takes any integer.
\<close>

record settings =
  apiKey :: string
  folderPath :: string
  startDate :: string
  chatFolderPath :: string
  syncChatsFlag :: bool
  chatFileFormat :: string
  maxChatsPerSync :: int

text \<open>
  A tool call carries the text \<open>JSON.stringify(args)\<close> prints into the template; the
  opaque \<open>result\<close> of a tool result is never read. Absent arrays are empty lists.
\<close>

record toolCall =
  toolCallId :: string
  toolCallName :: string
  toolCallArgs :: string

record toolResult =
  resultIsError :: bool
  resultCallId :: string
  resultToolName :: string
  entriesReturned :: "(string \<times> string) list"

record chatMessage =
  messageId :: string
  messageText :: "string option"
  toolCalls :: "toolCall list"
  toolResults :: "toolResult list"
  messageCreatedAt :: string
  userRole :: string
  userName :: "string option"

record chat =
  chatId :: string
  summary :: "string option"
  createdAt :: string
  startedAt :: string
  messages :: "chatMessage list"
  visibility :: string

section \<open>Chat file path\<close>

definition sanitizeFilename :: "string \<Rightarrow> string" where
  "sanitizeFilename name =
     take 100
       (map (\<lambda>c. if c \<in> set [CHR ''<'', CHR ''>'', CHR '':'', CHR 0x22, CHR ''/'', CHR 0x5C,
                                  CHR ''|'', CHR ''?'', CHR ''*'']
                   then CHR ''_'' else c) name)"

text \<open>
  \<open>date.getFullYear()\<close> and \<open>String(date.getMonth() + 1)\<close> as the template prints
  them: local fields, \<open>NaN\<close> for an Invalid Date.
\<close>

definition fullYearText :: "'j platform \<Rightarrow> jsDate \<Rightarrow> string" where
  "fullYearText P d =
     (case d of None \<Rightarrow> ''NaN'' | Some t \<Rightarrow> showInt (YearFromTime (t + utcOffset P)))"

definition monthText :: "'j platform \<Rightarrow> jsDate \<Rightarrow> string" where
  "monthText P d =
     (case d of None \<Rightarrow> ''NaN'' | Some t \<Rightarrow> showInt (MonthFromTime (t + utcOffset P) + 1))"

definition getChatFilePath :: "'j platform \<Rightarrow> settings \<Rightarrow> chat \<Rightarrow> string \<Rightarrow> error + string" where
  "getChatFilePath P S c folder =
     (let date = dateParse P (createdAt c)
      in if chatFileFormat S = ''per-chat'' then
           (let safeTitle = sanitizeFilename (orElse (summary c) (''Chat '' @ chatId c))
            in Inr (folder @ ''/'' @ safeTitle @ '' - '' @ take 8 (chatId c) @ ''.md''))
         else if chatFileFormat S = ''daily'' then
           (case date of
              None \<Rightarrow> Inl RangeError
            | Some t \<Rightarrow> Inr (folder @ ''/'' @ isoDate t @ '' - Chats.md''))
         else if chatFileFormat S = ''monthly'' then
           Inr (folder @ ''/'' @ fullYearText P date @ ''-''
                  @ padStart0 2 (monthText P date) @ '' - Chats.md'')
         else Inr (folder @ ''/'' @ chatId c @ ''.md''))"

section \<open>Chat renderer\<close>

text \<open>
  \<open>toUpperCase\<close> of one character: the letters a to z are mapped, every other character
  is left as it is (the roles of the API are ASCII words).
\<close>

definition toUpperCase :: "char \<Rightarrow> char" where
  "toUpperCase c =
     (case map_of (zip ''abcdefghijklmnopqrstuvwxyz'' ''ABCDEFGHIJKLMNOPQRSTUVWXYZ'') c of
        None \<Rightarrow> c
      | Some u \<Rightarrow> u)"

fun formatRole :: "string \<Rightarrow> string" where
  "formatRole [] = []"
| "formatRole (c # cs) = toUpperCase c # cs"

definition formatToolResult :: "toolResult \<Rightarrow> string list" where
  "formatToolResult r =
     (''- '' @ resultToolName r @ '': '' @ (if resultIsError r then ''Error'' else ''Success''))
     # map (\<lambda>(title, ident). ''  - [['' @ title @ '']] ('' @ ident @ '')'') (entriesReturned r)"

definition formatMessage :: "'j platform \<Rightarrow> chatMessage \<Rightarrow> string list" where
  "formatMessage P m =
     [''### '' @ formatRole (userRole m) @ '' '' @ orElse (userName m) [],
      ''*'' @ localeString P (dateParse P (messageCreatedAt m)) @ ''*'',
      []]
     @ (if truthy (messageText m) then [orElse (messageText m) [], []] else [])
     @ (if toolCalls m \<noteq> []
        then [''**Tool Calls:**'']
             @ map (\<lambda>tc. ''- '' @ toolCallName tc @ '': `'' @ toolCallArgs tc @ ''`'') (toolCalls m)
             @ [[]]
        else [])
     @ (if toolResults m \<noteq> []
        then [''**Tool Results:**''] @ concat (map formatToolResult (toolResults m)) @ [[]]
        else [])
     @ [''---'', []]"

definition formatChatMarkdown :: "'j platform \<Rightarrow> chat \<Rightarrow> string" where
  "formatChatMarkdown P c =
     joinWith ''\<newline>''
       ([''# '' @ orElse (summary c) ''Chat Conversation'',
         ''**Chat ID:** '' @ chatId c,
         ''**Created:** '' @ localeString P (dateParse P (createdAt c)),
         ''**Started:** '' @ localeString P (dateParse P (startedAt c)),
         ''**Visibility:** '' @ visibility c,
         []]
        @ (if messages c \<noteq> []
           then [''## Conversation'', []] @ concat (map (formatMessage P) (messages c))
           else []))"

section \<open>processChatFile\<close>

text \<open>
  A call of an async function either returns (\<open>Inr\<close>) or throws to its caller (\<open>Inl\<close>).
\<close>

definition getExistingFileContent :: "vault \<Rightarrow> string \<Rightarrow> string option" where
  "getExistingFileContent v filePath = adapterRead v filePath"

text \<open>
  The \<open>try\<close> block of \<open>processChatFile\<close>. When it completes it yields the vault and the
  calls of \<open>adapter.write\<close> it issued (path and text); when an error is thrown inside it,
  the error and the calls issued until then. On a chat of the declared type the renderer
  does not throw; the errors thrown are the \<open>RangeError\<close> of the daily path and a rejected
  write (a rejected read is caught in \<open>getExistingFileContent\<close> and reads as no file).
\<close>

definition processChatFileTry ::
  "'j platform \<Rightarrow> settings \<Rightarrow> vault \<Rightarrow> chat \<Rightarrow> string
     \<Rightarrow> error \<times> (string \<times> string) list + vault \<times> (string \<times> string) list" where
  "processChatFileTry P S v c folder =
     (case getChatFilePath P S c folder of
        Inl e \<Rightarrow> Inl (e, [])
      | Inr filePath \<Rightarrow>
          (let text = formatChatMarkdown P c;
               existingContent = getExistingFileContent v filePath
           in if existingContent \<noteq> Some text then
                (case adapterWrite v filePath text of
                   Inl e \<Rightarrow> Inl (e, [(filePath, text)])
                 | Inr v' \<Rightarrow> Inr (v', [(filePath, text)]))
              else Inr (v, [])))"

text \<open>
  What a call that returns leaves behind: the vault, the calls of \<open>adapter.write\<close> it
  issued, and the error its \<open>catch\<close> logged, if any.
\<close>

record processed =
  pcVault :: vault
  pcWrites :: "(string \<times> string) list"
  pcError :: "error option"

text \<open>
  \<open>processChatFile\<close>: the \<open>try\<close> block, and the \<open>catch\<close> that logs the error with
  \<open>console.error\<close> and lets the function return; no step before the failing one changes
  the vault, so it is then as it was.
\<close>

definition processChatFile ::
  "'j platform \<Rightarrow> settings \<Rightarrow> vault \<Rightarrow> chat \<Rightarrow> string \<Rightarrow> error + processed" where
  "processChatFile P S v c folder =
     (case processChatFileTry P S v c folder of
        Inr (v', ws) \<Rightarrow> Inr \<lparr>pcVault = v', pcWrites = ws, pcError = None\<rparr>
      | Inl (e, ws) \<Rightarrow> Inr \<lparr>pcVault = v, pcWrites = ws, pcError = Some e\<rparr>)"

section \<open>getChats\<close>

text \<open>
  The JSON body of a response, as far as the code reads it: \<open>data.lifelogs\<close>,
  \<open>meta.lifelogs.nextCursor\<close>, \<open>data.chats\<close> and \<open>meta.chats.nextCursor\<close>; an absent
  array is the empty list.
\<close>

record body =
  lifelogsData :: "lifelog list"
  lifelogsNextCursor :: "string option"
  chatsData :: "chat list"
  chatsNextCursor :: "string option"

definition baseUrl :: string where
  "baseUrl = ''https://api.limitless.ai''"

record chatParams =
  paramCursor :: "string option"
  paramDirection :: "string option"
  paramLimit :: "int option"
  paramTimezone :: "string option"
  paramIsScheduled :: "bool option"
  paramGlobalPromptId :: "string option"

definition chatQuery :: "chatParams \<Rightarrow> query" where
  "chatQuery p =
     (if truthy (paramCursor p) then [(''cursor'', orElse (paramCursor p) [])] else [])
     @ (if truthy (paramDirection p) then [(''direction'', orElse (paramDirection p) [])] else [])
     @ (case paramLimit p of
          None \<Rightarrow> []
        | Some n \<Rightarrow> if n = 0 then [] else [(''limit'', showInt n)])
     @ (if truthy (paramTimezone p) then [(''timezone'', orElse (paramTimezone p) [])] else [])
     @ (case paramIsScheduled p of
          None \<Rightarrow> []
        | Some b \<Rightarrow> [(''isScheduled'', if b then ''true'' else ''false'')])
     @ (if truthy (paramGlobalPromptId p)
        then [(''globalPromptId'', orElse (paramGlobalPromptId p) [])] else [])"

definition getChats :: "body platform \<Rightarrow> chatParams \<Rightarrow> error + chat list \<times> string option" where
  "getChats P p =
     (case reqResult (makeRequest P (baseUrl @ ''/v1/chats'') (chatQuery p)) of
        Inr response \<Rightarrow> Inr (chatsData response, chatsNextCursor response)
      | Inl e \<Rightarrow>
          if errStatus e = Some 404 then Inl (Error ''Chats not found or access denied'')
          else if errStatus e = Some 401 then Inl (Error ''Invalid API key or unauthorized access'')
          else Inl e)"

section \<open>syncChats\<close>

text \<open>
  The state of the loop: the vault, \<open>processedChats\<close>, the chats handed to
  \<open>processChatFile\<close> so far, the writes issued and the errors logged.
\<close>

record chatState =
  csVault :: vault
  processedChats :: nat
  csHandled :: "chat list"
  csWrites :: "(string \<times> string) list"
  csLogged :: "error list"

text \<open>
  The state when a call of \<open>processChatFile\<close> for the chat \<open>c\<close> has returned \<open>r\<close> and
  \<open>processedChats++\<close> is done.
\<close>

definition countChat :: "chatState \<Rightarrow> chat \<Rightarrow> processed \<Rightarrow> chatState" where
  "countChat st c r =
     \<lparr>csVault = pcVault r,
      processedChats = processedChats st + 1,
      csHandled = csHandled st @ [c],
      csWrites = csWrites st @ pcWrites r,
      csLogged = csLogged st @ (case pcError r of None \<Rightarrow> [] | Some e \<Rightarrow> [e])\<rparr>"

text \<open>
  The \<open>for\<close> loop over a page. An error thrown by \<open>processChatFile\<close> would leave the loop
  before the increment, for the \<open>catch\<close> of \<open>syncChats\<close>.
\<close>

fun processPage ::
  "body platform \<Rightarrow> settings \<Rightarrow> string \<Rightarrow> chatState \<Rightarrow> chat list
     \<Rightarrow> error \<times> chatState + chatState" where
  "processPage P S folder st [] = Inr st"
| "processPage P S folder st (c # cs) =
     (case processChatFile P S (csVault st) c folder of
        Inl e \<Rightarrow> Inl (e, st\<lparr>csHandled := csHandled st @ [c]\<rparr>)
      | Inr r \<Rightarrow> processPage P S folder (countChat st c r) cs)"

text \<open>\<open>Math.min(maxChatsPerSync || 50, 100)\<close> and \<open>maxChatsPerSync || 200\<close>.\<close>

definition pageLimit :: "settings \<Rightarrow> int" where
  "pageLimit S = min (if maxChatsPerSync S = 0 then 50 else maxChatsPerSync S) 100"

definition chatCap :: "settings \<Rightarrow> int" where
  "chatCap S = (if maxChatsPerSync S = 0 then 200 else maxChatsPerSync S)"

definition chatPageParams :: "body platform \<Rightarrow> settings \<Rightarrow> string option \<Rightarrow> chatParams" where
  "chatPageParams P S cursor =
     \<lparr>paramCursor = cursor, paramDirection = Some ''desc'', paramLimit = Some (pageLimit S),
      paramTimezone = Some (timeZone P), paramIsScheduled = None, paramGlobalPromptId = None\<rparr>"

text \<open>
  The \<open>do \<dots> while\<close> loop. The service may hand out cursors for ever, so the loop has
  fuel, one unit for each page; \<open>None\<close> is a loop that has not ended within it. The
  result is the error that ended the loop, if any, and the state.
\<close>

fun syncChatsLoop ::
  "nat \<Rightarrow> body platform \<Rightarrow> settings \<Rightarrow> string \<Rightarrow> string option \<Rightarrow> chatState
     \<Rightarrow> (error option \<times> chatState) option" where
  "syncChatsLoop 0 P S folder cursor st = None"
| "syncChatsLoop (Suc fuel) P S folder cursor st =
     (case getChats P (chatPageParams P S cursor) of
        Inl e \<Rightarrow> Some (Some e, st)
      | Inr (page, next) \<Rightarrow>
          (case processPage P S folder st page of
             Inl (e, st') \<Rightarrow> Some (Some e, st')
           | Inr st' \<Rightarrow>
               if truthy next \<and> int (processedChats st') < chatCap S
               then syncChatsLoop fuel P S folder next st'
               else Some (None, st')))"

datatype syncOutcome = Skipped | MissingApiKey | Complete | Failed error

record chatSyncResult =
  chatOutcome :: syncOutcome
  chatFinal :: chatState

definition initialChatState :: "vault \<Rightarrow> chatState" where
  "initialChatState v =
     \<lparr>csVault = v, processedChats = 0, csHandled = [], csWrites = [], csLogged = []\<rparr>"

definition syncChats :: "nat \<Rightarrow> body platform \<Rightarrow> settings \<Rightarrow> vault \<Rightarrow> chatSyncResult option" where
  "syncChats fuel P S v =
     (if \<not> syncChatsFlag S then
        Some \<lparr>chatOutcome = Skipped, chatFinal = initialChatState v\<rparr>
      else if apiKey S = [] then
        Some \<lparr>chatOutcome = MissingApiKey, chatFinal = initialChatState v\<rparr>
      else
        (let folder = normalizePath P (chatFolderPath S)
         in case ensureFolderExists v folder of
              Inl e \<Rightarrow> Some \<lparr>chatOutcome = Failed e, chatFinal = initialChatState v\<rparr>
            | Inr v1 \<Rightarrow>
                (case syncChatsLoop fuel P S folder None (initialChatState v1) of
                   None \<Rightarrow> None
                 | Some (None, st) \<Rightarrow> Some \<lparr>chatOutcome = Complete, chatFinal = st\<rparr>
                 | Some (Some e, st) \<Rightarrow> Some \<lparr>chatOutcome = Failed e, chatFinal = st\<rparr>)))"

section \<open>getLifelogs\<close>

definition batchSize :: int where
  "batchSize = 10"

text \<open>The query \<open>getLifelogs\<close> starts from, for the date its argument prints as.\<close>

definition lifelogQuery :: "body platform \<Rightarrow> string \<Rightarrow> query" where
  "lifelogQuery P dateStr =
     [(''date'', dateStr), (''timezone'', timeZone P), (''includeMarkdown'', ''true''),
      (''includeHeadings'', ''true''), (''direction'', ''asc''), (''limit'', showInt batchSize)]"

text \<open>
  The \<open>do \<dots> while (cursor)\<close> loop, with fuel for the pages: \<open>None\<close> is a loop that has
  not ended within it. \<open>params.set\<close> replaces the cursor in place or appends it.
\<close>

fun getLifelogsLoop ::
  "nat \<Rightarrow> body platform \<Rightarrow> query \<Rightarrow> string option \<Rightarrow> lifelog list
     \<Rightarrow> (error + lifelog list) option" where
  "getLifelogsLoop 0 P params cursor allLifelogs = None"
| "getLifelogsLoop (Suc fuel) P params cursor allLifelogs =
     (let params' = (if truthy cursor then AList.update ''cursor'' (orElse cursor []) params
                     else params)
      in case reqResult (makeRequest P (baseUrl @ ''/v1/lifelogs'') params') of
           Inl e \<Rightarrow> Some (Inl e)
         | Inr data \<Rightarrow>
             (let allLifelogs' = allLifelogs @ lifelogsData data;
                  next = (if truthy (lifelogsNextCursor data) then lifelogsNextCursor data
                          else None)
              in if truthy next then getLifelogsLoop fuel P params' next allLifelogs'
                 else Some (Inr allLifelogs')))"

definition getLifelogs :: "nat \<Rightarrow> body platform \<Rightarrow> int \<Rightarrow> (error + lifelog list) option" where
  "getLifelogs fuel P date = getLifelogsLoop fuel P (lifelogQuery P (isoDate date)) None []"

section \<open>getLastSyncedDate\<close>

text \<open>The base name of a file: the last segment of its path, without its extension.\<close>

definition fileName :: "string \<Rightarrow> string" where
  "fileName path = rev (takeWhile (\<lambda>c. c \<noteq> CHR ''/'') (rev path))"

definition basename :: "string \<Rightarrow> string" where
  "basename path =
     (let name = fileName path
      in if CHR ''.'' \<in> set name
         then rev (tl (dropWhile (\<lambda>c. c \<noteq> CHR ''.'') (rev name)))
         else name)"

text \<open>The test of the regular expression \<open>^\d{4}-\d{2}-\d{2}$\<close>.\<close>

definition isDateBasename :: "string \<Rightarrow> bool" where
  "isDateBasename s =
     (length s = 10 \<and> s ! 4 = CHR ''-'' \<and> s ! 7 = CHR ''-''
      \<and> list_all isDigit (take 4 s) \<and> list_all isDigit (take 2 (drop 5 s))
      \<and> list_all isDigit (drop 8 s))"

text \<open>
  \<open>Array.prototype.sort\<close> with the comparator \<open>(a, b) => b.getTime() - a.getTime()\<close>.
  A positive value puts \<open>b\<close> first; NaN (an Invalid Date on either side) counts as 0.
  With valid dates only, the result is the dates in descending order. Where an Invalid
  Date makes the comparator inconsistent the order is implementation-defined, and the
  model's is that of a stable insertion sort.
\<close>

definition newerFirst :: "jsDate \<Rightarrow> jsDate \<Rightarrow> bool" where
  "newerFirst a b =
     (case (a, b) of
        (Some ta, Some tb) \<Rightarrow> tb - ta \<le> 0
      | _ \<Rightarrow> True)"

fun insertDate :: "jsDate \<Rightarrow> jsDate list \<Rightarrow> jsDate list" where
  "insertDate a [] = [a]"
| "insertDate a (b # bs) = (if newerFirst a b then a # b # bs else b # insertDate a bs)"

definition sortNewestFirst :: "jsDate list \<Rightarrow> jsDate list" where
  "sortNewestFirst ds = foldr insertDate ds []"

text \<open>The base names of the lifelog files that look like dates.\<close>

definition syncedBasenames :: "body platform \<Rightarrow> settings \<Rightarrow> vault \<Rightarrow> string list" where
  "syncedBasenames P S v =
     filter isDateBasename
       (map basename
          (filter (\<lambda>path. endsWith path ''.md'')
             (filter (\<lambda>path. startsWith path (normalizePath P (folderPath S) @ ''/''))
                (getFiles v))))"

text \<open>\<open>None\<close> is \<open>null\<close>; \<open>Some None\<close> is an Invalid Date.\<close>

definition getLastSyncedDate :: "body platform \<Rightarrow> settings \<Rightarrow> vault \<Rightarrow> jsDate option" where
  "getLastSyncedDate P S v =
     (case sortNewestFirst (map (dateParse P) (syncedBasenames P S v)) of
        [] \<Rightarrow> None
      | d # ds \<Rightarrow> Some d)"

section \<open>syncLifelogs\<close>

text \<open>
  The state of the date walk: the vault, the dates passed to \<open>getLifelogs\<close> and the
  writes issued, both in order.
\<close>

record walkState =
  wVault :: vault
  wFetched :: "int list"
  wWrites :: "(string \<times> string) list"

definition lifelogPath :: "string \<Rightarrow> int \<Rightarrow> string" where
  "lifelogPath folder date = folder @ ''/'' @ isoDate date @ ''.md''"

text \<open>
  The \<open>while (currentDate <= endDate)\<close> loop. \<open>setDate(getDate() + 1)\<close> moves the date
  one day on, in a zone of constant offset by \<open>msPerDay\<close>. The result is the error that
  ended the walk, if any, and the state; \<open>None\<close> when a call of \<open>getLifelogs\<close> has not
  ended within its fuel.
\<close>

function lifelogWalk ::
  "nat \<Rightarrow> body platform \<Rightarrow> string \<Rightarrow> int \<Rightarrow> int \<Rightarrow> walkState
     \<Rightarrow> (error option \<times> walkState) option" where
  "lifelogWalk fuel P folder endDate currentDate st =
     (if currentDate \<le> endDate then
        (case getLifelogs fuel P currentDate of
           None \<Rightarrow> None
         | Some (Inl e) \<Rightarrow> Some (Some e, st\<lparr>wFetched := wFetched st @ [currentDate]\<rparr>)
         | Some (Inr logs) \<Rightarrow>
             if logs \<noteq> [] then
               (let text = joinWith ''\<newline>\<newline>'' (map (formatLifelogMarkdown P) logs);
                    filePath = lifelogPath folder currentDate
                in case adapterWrite (wVault st) filePath text of
                     Inl e \<Rightarrow>
                       Some (Some e, st\<lparr>wFetched := wFetched st @ [currentDate],
                                         wWrites := wWrites st @ [(filePath, text)]\<rparr>)
                   | Inr v' \<Rightarrow>
                       lifelogWalk fuel P folder endDate (currentDate + msPerDay)
                         \<lparr>wVault = v', wFetched = wFetched st @ [currentDate],
                          wWrites = wWrites st @ [(filePath, text)]\<rparr>)
             else lifelogWalk fuel P folder endDate (currentDate + msPerDay)
                    (st\<lparr>wFetched := wFetched st @ [currentDate]\<rparr>))
      else Some (None, st))"
  by pat_completeness auto
termination
  by (relation "measure (\<lambda>(fuel, P, folder, endDate, currentDate, st).
                            nat (endDate + 1 - currentDate))")
     (auto simp: msPerDay_def)

declare lifelogWalk.simps [simp del]

record lifelogSyncResult =
  lifelogOutcome :: syncOutcome
  lifelogFinal :: walkState

definition initialWalkState :: "vault \<Rightarrow> walkState" where
  "initialWalkState v = \<lparr>wVault = v, wFetched = [], wWrites = []\<rparr>"

text \<open>\<open>now\<close> is the clock when the sync starts, the \<open>endDate\<close> of the walk.\<close>

definition syncLifelogs ::
  "nat \<Rightarrow> body platform \<Rightarrow> settings \<Rightarrow> int \<Rightarrow> vault \<Rightarrow> lifelogSyncResult option" where
  "syncLifelogs fuel P S now v =
     (if apiKey S = [] then
        Some \<lparr>lifelogOutcome = MissingApiKey, lifelogFinal = initialWalkState v\<rparr>
      else
        (let folder = normalizePath P (folderPath S)
         in case ensureFolderExists v folder of
              Inl e \<Rightarrow> Some \<lparr>lifelogOutcome = Failed e, lifelogFinal = initialWalkState v\<rparr>
            | Inr v1 \<Rightarrow>
                (let startDate = (case getLastSyncedDate P S v1 of
                                    Some lastSyncedDate \<Rightarrow> lastSyncedDate
                                  | None \<Rightarrow> dateParse P (startDate S))
                 in case startDate of
                      None \<Rightarrow>
                        Some \<lparr>lifelogOutcome = Complete, lifelogFinal = initialWalkState v1\<rparr>
                    | Some currentDate \<Rightarrow>
                        (case lifelogWalk fuel P folder now currentDate (initialWalkState v1) of
                           None \<Rightarrow> None
                         | Some (None, st) \<Rightarrow>
                             Some \<lparr>lifelogOutcome = Complete, lifelogFinal = st\<rparr>
                         | Some (Some e, st) \<Rightarrow>
                             Some \<lparr>lifelogOutcome = Failed e, lifelogFinal = st\<rparr>))))"

text \<open>
  For stating properties of a run: whether the \<open>k\<close>-th call ends in a 429 error, and
  the delay the \<open>catch\<close> block computes for it.
\<close>

definition rateLimited :: "'j platform \<Rightarrow> string \<Rightarrow> query \<Rightarrow> nat \<Rightarrow> bool" where
  "rateLimited P url params k =
     (case tryRequest (requestUrl P url params k) of
        Inl e \<Rightarrow> errStatus e = Some 429
      | Inr j \<Rightarrow> False)"

definition delayAt :: "'j platform \<Rightarrow> string \<Rightarrow> query \<Rightarrow> nat \<Rightarrow> int option" where
  "delayAt P url params k =
     (case tryRequest (requestUrl P url params k) of
        Inl e \<Rightarrow> backoffDelay P k e
      | Inr j \<Rightarrow> None)"

text \<open>A server that always answers 429, without a \<open>retry-after\<close> header.\<close>

definition alwaysLimited :: "unit platform" where
  "alwaysLimited =
     \<lparr>requestUrl = (\<lambda>url params k. Threw (HttpError (Some 429) [])),
      dateParse = (\<lambda>s. None), clock = (\<lambda>k. 0), timeZone = ''UTC'',
      utcOffset = 0, localeString = (\<lambda>d. []), normalizePath = (\<lambda>p. p)\<rparr>"


text \<open>A server that answers 429 twice and then 500.\<close>

definition flakyServer :: "unit platform" where
  "flakyServer =
     \<lparr>requestUrl = (\<lambda>url params k. Threw (HttpError (Some (if k < 2 then 429 else 500)) [])),
      dateParse = (\<lambda>s. None), clock = (\<lambda>k. 0), timeZone = ''UTC'',
      utcOffset = 0, localeString = (\<lambda>d. []), normalizePath = (\<lambda>p. p)\<rparr>"

text \<open>
  For stating properties of the renderer: the lines a section buffers are those of the
  \<open>blockquote\<close> nodes of its body, in order.
\<close>

definition sectionLines :: "'j platform \<Rightarrow> node list \<Rightarrow> string list" where
  "sectionLines P body =
     map (blockquoteMessage P) (filter (\<lambda>n. nodeType n = ''blockquote'') body)"

text \<open>
  A platform in UTC that knows two dates: \<open>2025-02-09T10:00:00\<close> (no offset given, so
  local time) and the date-only form \<open>2025-02-09\<close> (midnight UTC).
\<close>

definition utcPlatform :: "unit platform" where
  "utcPlatform =
     \<lparr>requestUrl = (\<lambda>url params k. Responded None),
      dateParse = map_of [(''2025-02-09T10:00:00'', 1739095200000),
                          (''2025-02-09'', 1739059200000)],
      clock = (\<lambda>k. 0), timeZone = ''UTC'',
      utcOffset = 0, localeString = (\<lambda>d. []), normalizePath = (\<lambda>p. p)\<rparr>"

text \<open>The lifelog of the renderer example, with any title.\<close>

definition meeting :: "string option \<Rightarrow> lifelog" where
  "meeting title =
     \<lparr>markdown = None, lifelogTitle = title,
      contents =
        [\<lparr>nodeType = ''heading2'', nodeContent = ''Meeting'', speakerName = None,
          startTime = None\<rparr>,
         \<lparr>nodeType = ''blockquote'', nodeContent = ''Hello'', speakerName = Some ''Alice'',
          startTime = Some ''2025-02-09T10:00:00''\<rparr>]\<rparr>"

text \<open>A lifelog whose first section has no line when the second one opens.\<close>

definition twoHeadings :: lifelog where
  "twoHeadings =
     \<lparr>markdown = None, lifelogTitle = None,
      contents =
        [\<lparr>nodeType = ''heading2'', nodeContent = ''A'', speakerName = None, startTime = None\<rparr>,
         \<lparr>nodeType = ''heading2'', nodeContent = ''B'', speakerName = None, startTime = None\<rparr>,
         \<lparr>nodeType = ''blockquote'', nodeContent = ''x'', speakerName = None,
          startTime = None\<rparr>]\<rparr>"

text \<open>
  What a section puts into the document, in the words of the renderer's description. The
  body of a section is the nodes after its heading2 node, up to the next heading2 node or
  the end.
  \<^item> With no section open (an empty title opens none) every node of the body but a heading1
    is emitted where it stands: a blockquote as its line, any other node as its content.
  \<^item> With a section open the nodes of the body that are neither blockquote nor heading1
    are emitted where they stand, and the flush adds, only if the section has buffered a
    line, the heading \<open>## title\<close>, the buffered lines, and an empty block unless the flush
    is the one at the end of the traversal.
\<close>

definition topLevelBlocks :: "'j platform \<Rightarrow> node list \<Rightarrow> string list" where
  "topLevelBlocks P body =
     map (\<lambda>n. if nodeType n = ''blockquote'' then blockquoteMessage P n else nodeContent n)
       (filter (\<lambda>n. nodeType n \<noteq> ''heading1'') body)"

definition otherBlocks :: "node list \<Rightarrow> string list" where
  "otherBlocks body =
     map nodeContent
       (filter (\<lambda>n. nodeType n \<noteq> ''blockquote'' \<and> nodeType n \<noteq> ''heading1'') body)"

definition sectionBlocks :: "'j platform \<Rightarrow> string \<Rightarrow> node list \<Rightarrow> bool \<Rightarrow> string list" where
  "sectionBlocks P title body atEnd =
     (if title = [] then topLevelBlocks P body
      else otherBlocks body
           @ (if sectionLines P body = [] then []
              else [''## '' @ title @ ''\<newline>''] @ sectionLines P body
                   @ (if atEnd then [] else [[]])))"

text \<open>
  The blocks in \<open>content\<close> when the nodes \<open>pre\<close> and then the heading2 node \<open>h\<close> have
  been processed, that is, when the section of \<open>h\<close> opens.
\<close>

definition openingBlocks :: "'j platform \<Rightarrow> lifelog \<Rightarrow> node list \<Rightarrow> node \<Rightarrow> string list" where
  "openingBlocks P l pre h =
     rsContent
       (foldl (renderNode P)
          \<lparr>rsContent =
             (case lifelogTitle l of
                None \<Rightarrow> []
              | Some title \<Rightarrow> if title = [] then [] else [''# '' @ title @ ''\<newline>'']),
           currentSection = [], sectionMessages = []\<rparr>
          (pre @ [h]))"

text \<open>The nodes \<open>rest\<close> as a lifelog of their own, without a title.\<close>

definition restLifelog :: "node list \<Rightarrow> lifelog" where
  "restLifelog rest = \<lparr>markdown = None, lifelogTitle = None, contents = rest\<rparr>"

text \<open>
  A lifelog whose \<open>markdown\<close> is the empty string, with four sections: A has a line and is
  closed by the next heading; B has only a paragraph; the third heading has an empty title;
  C has a line and is open at the end.
\<close>

definition heading2Node :: "string \<Rightarrow> node" where
  "heading2Node title =
     \<lparr>nodeType = ''heading2'', nodeContent = title, speakerName = None, startTime = None\<rparr>"

definition quoteNode :: "string \<Rightarrow> node" where
  "quoteNode line =
     \<lparr>nodeType = ''blockquote'', nodeContent = line, speakerName = None, startTime = None\<rparr>"

definition paragraphNode :: "string \<Rightarrow> node" where
  "paragraphNode line =
     \<lparr>nodeType = ''paragraph'', nodeContent = line, speakerName = None, startTime = None\<rparr>"

definition fourSections :: lifelog where
  "fourSections =
     \<lparr>markdown = Some [], lifelogTitle = None,
      contents =
        [heading2Node ''A'', quoteNode ''x'', heading2Node ''B'', paragraphNode ''note'',
         heading2Node [], quoteNode ''y'', heading2Node ''C'', quoteNode ''z'']\<rparr>"

text \<open>A state of the loop with the blocks \<open>c\<close> put in front of its \<open>content\<close>.\<close>

definition shift :: "string list \<Rightarrow> renderState \<Rightarrow> renderState" where
  "shift c s = s\<lparr>rsContent := c @ rsContent s\<rparr>"


text \<open>
  For the proofs about chat sync: the record a call of \<open>processChatFile\<close> returns, and the
  body of the loop over a page for a call that returns.
\<close>

definition processChatFileResult ::
  "'j platform \<Rightarrow> settings \<Rightarrow> vault \<Rightarrow> chat \<Rightarrow> string \<Rightarrow> processed" where
  "processChatFileResult P S v c folder =
     (case processChatFileTry P S v c folder of
        Inr (v', ws) \<Rightarrow> \<lparr>pcVault = v', pcWrites = ws, pcError = None\<rparr>
      | Inl (e, ws) \<Rightarrow> \<lparr>pcVault = v, pcWrites = ws, pcError = Some e\<rparr>)"

definition processChat :: "body platform \<Rightarrow> settings \<Rightarrow> string \<Rightarrow> chatState \<Rightarrow> chat \<Rightarrow> chatState" where
  "processChat P S folder st c =
     countChat st c (processChatFileResult P S (csVault st) c folder)"

text \<open>
  For stating properties of chat sync: the chats the loop of \<open>syncChats\<close> hands to
  \<open>processChatFile\<close>, page after page, computed without the vault. The first argument is
  the fuel, the last one the value of \<open>processedChats\<close> when the page is requested.
\<close>

fun fetchedChats ::
  "nat \<Rightarrow> body platform \<Rightarrow> settings \<Rightarrow> string option \<Rightarrow> nat
     \<Rightarrow> (error option \<times> chat list) option" where
  "fetchedChats 0 P S cursor n = None"
| "fetchedChats (Suc fuel) P S cursor n =
     (case getChats P (chatPageParams P S cursor) of
        Inl e \<Rightarrow> Some (Some e, [])
      | Inr (page, next) \<Rightarrow>
          if truthy next \<and> int (n + length page) < chatCap S
          then (case fetchedChats fuel P S next (n + length page) of
                  None \<Rightarrow> None
                | Some (r, cs) \<Rightarrow> Some (r, page @ cs))
          else Some (None, page))"

text \<open>A chat created on 9 February 2025, and the three layouts.\<close>

definition sampleChat :: "string \<Rightarrow> chat" where
  "sampleChat ident =
     \<lparr>chatId = ident, summary = Some ''Plan'', createdAt = ''2025-02-09'',
      startedAt = ''2025-02-09'', messages = [], visibility = ''private''\<rparr>"

definition sampleSettings :: "string \<Rightarrow> int \<Rightarrow> settings" where
  "sampleSettings layout cap =
     \<lparr>apiKey = ''key'', folderPath = ''Limitless Lifelogs'', startDate = ''2025-02-09'',
      chatFolderPath = ''Limitless Chats'', syncChatsFlag = True, chatFileFormat = layout,
      maxChatsPerSync = cap\<rparr>"

definition emptyVault :: vault where
  "emptyVault = \<lparr>vaultFiles = [], vaultFolders = [], readOnly = (\<lambda>p. False)\<rparr>"

text \<open>
  A service in UTC that answers every chat request with the same page and a next cursor:
  \<open>chatService page\<close>. It knows the date \<open>2025-02-09\<close>.
\<close>

definition chatService :: "chat list \<Rightarrow> string option \<Rightarrow> body platform" where
  "chatService page next =
     \<lparr>requestUrl = (\<lambda>url params k.
        Responded (Some \<lparr>lifelogsData = [], lifelogsNextCursor = None,
                         chatsData = page, chatsNextCursor = next\<rparr>)),
      dateParse = map_of [(''2025-02-09'', 1739059200000)],
      clock = (\<lambda>k. 0), timeZone = ''UTC'',
      utcOffset = 0, localeString = (\<lambda>d. ''2/9/2025, 12:00:00 AM''),
      normalizePath = (\<lambda>p. p)\<rparr>"

text \<open>Two runs of chat sync over the same remote data: the result of the second one.\<close>

definition chatSyncTwice :: "nat \<Rightarrow> body platform \<Rightarrow> settings \<Rightarrow> vault \<Rightarrow> chatSyncResult option" where
  "chatSyncTwice fuel P S v =
     (case syncChats fuel P S v of
        None \<Rightarrow> None
      | Some r1 \<Rightarrow> syncChats fuel P S (csVault (chatFinal r1)))"


text \<open>A vault that rejects every write to the file of chat a.\<close>

definition halfLockedVault :: vault where
  "halfLockedVault =
     \<lparr>vaultFiles = [], vaultFolders = [''Limitless Chats''],
      readOnly = (\<lambda>p. p = ''Limitless Chats/Plan - a.md'')\<rparr>"

text \<open>
  For stating properties of lifelog sync: the time values of the lifelog files already in
  the vault whose base names are valid dates.
\<close>

definition syncedTimes :: "body platform \<Rightarrow> settings \<Rightarrow> vault \<Rightarrow> int list" where
  "syncedTimes P S v =
     concat (map (\<lambda>b. case dateParse P b of None \<Rightarrow> [] | Some t \<Rightarrow> [t])
               (syncedBasenames P S v))"

text \<open>
  A service in UTC with lifelogs for 10 February 2025 only, a vault that holds the file of
  9 February, and noon of 10 February as the time of the sync.
\<close>

definition lifelogService :: "body platform" where
  "lifelogService =
     \<lparr>requestUrl = (\<lambda>url params k.
        Responded (Some \<lparr>lifelogsData =
                          (if map_of params ''date'' = Some ''2025-02-10''
                           then [\<lparr>markdown = Some ''new'', lifelogTitle = None, contents = []\<rparr>]
                           else []),
                         lifelogsNextCursor = None, chatsData = [], chatsNextCursor = None\<rparr>)),
      dateParse = map_of [(''2025-02-09'', 1739059200000)],
      clock = (\<lambda>k. 0), timeZone = ''UTC'',
      utcOffset = 0, localeString = (\<lambda>d. []), normalizePath = (\<lambda>p. p)\<rparr>"

definition syncedVault :: vault where
  "syncedVault =
     \<lparr>vaultFiles = [(''Limitless Lifelogs/2025-02-09.md'', ''old'')],
      vaultFolders = [''Limitless Lifelogs''], readOnly = (\<lambda>p. False)\<rparr>"

definition noonFeb10 :: int where
  "noonFeb10 = 1739188800000"

text \<open>A path is written for when it is the path of a date that has lifelogs.\<close>

definition writtenFor :: "nat \<Rightarrow> body platform \<Rightarrow> string \<Rightarrow> string \<Rightarrow> bool" where
  "writtenFor fuel P folder path =
     (\<exists>d logs. path = lifelogPath folder d \<and> getLifelogs fuel P d = Some (Inr logs)
               \<and> logs \<noteq> [])"


section \<open>Verified properties\<close>


subsection \<open>The request executor\<close>

lemma parseInt10_3: "parseInt10 ''3'' = Some 3"
  by (simp add: parseInt10_def isDigit_def isWhiteSpace_def)

lemma makeRequestLoop_retry:
  assumes "rateLimited P url params r" and "r < maxRetries"
  shows "makeRequestLoop P url params r ws =
         makeRequestLoop P url params (Suc r) (ws @ [delayAt P url params r])"
  using assms
  by (subst makeRequestLoop.simps)
     (auto simp: rateLimited_def delayAt_def split: sum.splits)

lemma makeRequestLoop_give_up:
  assumes "tryRequest (requestUrl P url params r) = Inl e"
    and "errStatus e \<noteq> Some 429 \<or> \<not> r < maxRetries"
  shows "makeRequestLoop P url params r ws =
         \<lparr>reqResult = Inl e, reqWaits = ws, reqRetries = r\<rparr>"
  using assms by (subst makeRequestLoop.simps) auto

lemma makeRequestLoop_rate_limited_run:
  assumes "\<forall>i<k. rateLimited P url params (r + i)" and "r + k \<le> maxRetries"
  shows "makeRequestLoop P url params r ws =
         makeRequestLoop P url params (r + k) (ws @ map (delayAt P url params) [r..<r + k])"
  using assms
proof (induction k arbitrary: r ws)
  case 0
  then show ?case by simp
next
  case (Suc k)
  have rl: "rateLimited P url params r" using Suc.prems(1) by force
  have lt: "r < maxRetries" using Suc.prems(2) by simp
  have rest: "\<forall>i<k. rateLimited P url params (Suc r + i)"
    using Suc.prems(1) by (metis Suc_less_eq add_Suc_shift)
  have "makeRequestLoop P url params r ws =
        makeRequestLoop P url params (Suc r) (ws @ [delayAt P url params r])"
    by (rule makeRequestLoop_retry [OF rl lt])
  also have "\<dots> = makeRequestLoop P url params (Suc r + k)
        ((ws @ [delayAt P url params r]) @ map (delayAt P url params) [Suc r..<Suc r + k])"
  proof (rule Suc.IH [OF rest])
    show "Suc r + k \<le> maxRetries" using Suc.prems(2) by simp
  qed
  also have "\<dots> = makeRequestLoop P url params (r + Suc k)
        (ws @ map (delayAt P url params) [r..<r + Suc k])"
  proof -
    have "[r..<r + Suc k] = r # [Suc r..<Suc r + k]"
      by (simp add: upt_conv_Cons)
    then show ?thesis by simp
  qed
  finally show ?case .
qed

text \<open>
  Claim C3. A 429 error carrying the header \<open>retry-after: 3\<close> gives a delay of exactly
  3000 ms; a 429 error with no \<open>retry-after\<close> header gives, on retry number \<open>n\<close>
  (from 0), exactly \<open>1000 * 2 ^ n\<close> ms; and when the calls 0 to 5 are all answered with
  429, \<open>makeRequest\<close> waits five times and then throws the 429 error of the sixth call.
\<close>

theorem backoff_correct:
  "(map_of hs ''retry-after'' = Some ''3'' \<longrightarrow>
      backoffDelay P n (HttpError (Some 429) hs) = Some 3000)
   \<and> (map_of hs ''retry-after'' = None \<longrightarrow>
      backoffDelay P n (HttpError (Some 429) hs) = Some (1000 * 2 ^ n))
   \<and> ((\<forall>i\<le>5. rateLimited P url params i) \<longrightarrow>
      (\<exists>e. requestUrl P url params 5 = Threw e \<and> errStatus e = Some 429
          \<and> makeRequest P url params =
              \<lparr>reqResult = Inl e,
               reqWaits = map (delayAt P url params) [0..<5],
               reqRetries = 5\<rparr>))"
proof (intro conjI impI)
  assume "map_of hs ''retry-after'' = Some ''3''"
  then show "backoffDelay P n (HttpError (Some 429) hs) = Some 3000"
    by (simp add: backoffDelay_def parseInt10_3)
next
  assume "map_of hs ''retry-after'' = None"
  then show "backoffDelay P n (HttpError (Some 429) hs) = Some (1000 * 2 ^ n)"
    by (simp add: backoffDelay_def retryDelay_def)
next
  assume all: "\<forall>i\<le>5. rateLimited P url params i"
  then have "rateLimited P url params 5" by simp
  then obtain e where e: "tryRequest (requestUrl P url params 5) = Inl e"
    and st: "errStatus e = Some 429"
    by (auto simp: rateLimited_def split: sum.splits)
  have thrown: "requestUrl P url params 5 = Threw e"
    using e st by (cases "requestUrl P url params 5" rule: tryRequest.cases) auto
  have "makeRequestLoop P url params 0 [] =
        makeRequestLoop P url params (0 + 5) ([] @ map (delayAt P url params) [0..<0 + 5])"
    by (rule makeRequestLoop_rate_limited_run) (use all in \<open>simp_all add: maxRetries_def\<close>)
  also have "\<dots> = \<lparr>reqResult = Inl e, reqWaits = map (delayAt P url params) [0..<5],
                     reqRetries = 5\<rparr>"
    using makeRequestLoop_give_up [OF e, of "map (delayAt P url params) [0..<5]"]
    by (simp add: maxRetries_def)
  finally show "\<exists>e. requestUrl P url params 5 = Threw e \<and> errStatus e = Some 429
          \<and> makeRequest P url params =
              \<lparr>reqResult = Inl e,
               reqWaits = map (delayAt P url params) [0..<5],
               reqRetries = 5\<rparr>"
    using thrown st by (simp add: makeRequest_def)
qed

theorem backoff_correct_witness:
  "map_of [(''retry-after'', ''3'')] ''retry-after'' = Some ''3''
   \<and> backoffDelay alwaysLimited 2 (HttpError (Some 429) [(''retry-after'', ''3'')]) = Some 3000
   \<and> map_of ([] :: (string \<times> string) list) ''retry-after'' = None
   \<and> backoffDelay alwaysLimited 2 (HttpError (Some 429) []) = Some 4000
   \<and> list_all (rateLimited alwaysLimited ''u'' []) [0, 1, 2, 3, 4, 5]
   \<and> makeRequest alwaysLimited ''u'' [] =
        \<lparr>reqResult = Inl (HttpError (Some 429) []),
         reqWaits = [Some 1000, Some 2000, Some 4000, Some 8000, Some 16000],
         reqRetries = 5\<rparr>"
proof -
  have rl: "\<forall>i\<le>5. rateLimited alwaysLimited ''u'' [] i"
    by (simp add: rateLimited_def alwaysLimited_def)
  have d: "map (delayAt alwaysLimited ''u'' []) [0..<5] =
           [Some 1000, Some 2000, Some 4000, Some 8000, Some 16000]"
    by (simp add: delayAt_def alwaysLimited_def backoffDelay_def retryDelay_def upt_rec)
  have thr: "requestUrl alwaysLimited ''u'' [] 5 = Threw (HttpError (Some 429) [])"
    by (simp add: alwaysLimited_def)
  show ?thesis
    using backoff_correct [of "[(''retry-after'', ''3'')]" alwaysLimited 2 "''u''" "[]"]
          backoff_correct [of "[]" alwaysLimited 2 "''u''" "[]"] rl d thr
    by simp
qed

text \<open>
  Claim C9. In whatever state the loop of \<open>makeRequest\<close> is (\<open>r\<close> retries done, delays
  \<open>ws\<close> waited for), a call that rejects with a status other than 429 (a network error
  has none), or resolves without a JSON body, ends the loop at once: the error is thrown,
  no delay is added and the retry counter is not incremented. So a call of \<open>makeRequest\<close>
  whose first \<open>r\<close> attempts were rate-limited and whose next attempt fails in this way
  throws that error after exactly \<open>r\<close> waits, those of the rate-limited attempts.
\<close>

theorem non429_not_retried:
  assumes "(requestUrl P url params r = Threw e \<and> errStatus e \<noteq> Some 429)
           \<or> (requestUrl P url params r = Responded None \<and> e = Error ''Invalid response format'')"
  shows "makeRequestLoop P url params r ws =
           \<lparr>reqResult = Inl e, reqWaits = ws, reqRetries = r\<rparr>
       \<and> ((\<forall>i<r. rateLimited P url params i) \<and> r \<le> maxRetries \<longrightarrow>
            makeRequest P url params =
              \<lparr>reqResult = Inl e, reqWaits = map (delayAt P url params) [0..<r],
               reqRetries = r\<rparr>)"
proof -
  have fail: "tryRequest (requestUrl P url params r) = Inl e \<and> errStatus e \<noteq> Some 429"
    using assms by auto
  then have stop: "makeRequestLoop P url params r ws' =
           \<lparr>reqResult = Inl e, reqWaits = ws', reqRetries = r\<rparr>" for ws'
    by (simp add: makeRequestLoop_give_up)
  have "makeRequest P url params =
          \<lparr>reqResult = Inl e, reqWaits = map (delayAt P url params) [0..<r], reqRetries = r\<rparr>"
    if "\<forall>i<r. rateLimited P url params i" and "r \<le> maxRetries"
  proof -
    have "makeRequestLoop P url params 0 [] =
            makeRequestLoop P url params (0 + r) ([] @ map (delayAt P url params) [0..<0 + r])"
      by (rule makeRequestLoop_rate_limited_run) (use that in simp_all)
    then show ?thesis by (simp add: makeRequest_def stop)
  qed
  then show ?thesis using stop by blast
qed

lemma flakyServer_delays:
  "map (delayAt flakyServer ''u'' []) [0..<2] = [Some 1000, Some 2000]"
  by (simp add: delayAt_def flakyServer_def backoffDelay_def retryDelay_def upt_rec)

theorem non429_not_retried_witness:
  "requestUrl flakyServer ''u'' [] 2 = Threw (HttpError (Some 500) [])
   \<and> errStatus (HttpError (Some 500) []) \<noteq> Some 429
   \<and> list_all (rateLimited flakyServer ''u'' []) [0, 1]
   \<and> makeRequest flakyServer ''u'' [] =
        \<lparr>reqResult = Inl (HttpError (Some 500) []), reqWaits = [Some 1000, Some 2000],
         reqRetries = 2\<rparr>"
proof -
  have h: "requestUrl flakyServer ''u'' [] 2 = Threw (HttpError (Some 500) [])"
    by (simp add: flakyServer_def)
  have s: "errStatus (HttpError (Some 500) []) \<noteq> Some 429" by simp
  have l: "\<forall>i<2. rateLimited flakyServer ''u'' [] i"
    by (simp add: rateLimited_def flakyServer_def)
  then have l': "list_all (rateLimited flakyServer ''u'' []) [0, 1]" by simp
  show ?thesis
    using non429_not_retried [of flakyServer "''u''" "[]" 2 "HttpError (Some 500) []" "[]"]
          h s l l' flakyServer_delays
    by (simp add: maxRetries_def)
qed

subsection \<open>The lifelog renderer\<close>

lemma fields_1739095200000:
  "MonthFromTime 1739095200000 = 1" "DateFromTime 1739095200000 = 9"
  "YearFromTime 1739095200000 = 2025" "HourFromTime 1739095200000 = 10"
  "MinFromTime 1739095200000 = 0"
  by code_simp+

lemma show_small:
  "padStart0 2 (showInt 2) = ''02''" "padStart0 2 (showInt 9) = ''09''"
  "padStart0 2 (showInt 25) = ''25''" "showInt 10 = ''10''" "padStart0 2 (showInt 0) = ''00''"
  by code_simp+

lemma toLocaleString_example:
  assumes "t + utcOffset P = 1739095200000"
  shows "toLocaleString_enUS P (Some t) = ''02/09/25, 10:00 AM''"
  using assms
  by (simp add: toLocaleString_enUS_def Let_def fields_1739095200000 show_small)

text \<open>
  Claim C5, as amended. On a platform that reads \<open>2025-02-09T10:00:00\<close> as ten
  o'clock local time of 9 February 2025, the lifelog with no pre-rendered markdown and the
  nodes heading2 "Meeting", blockquote (Alice, that start time, "Hello") is rendered as
  its title block, if it has a title, then \<open>## Meeting\<close>, and after two empty lines the
  line \<open>- Alice (02/09/25, 10:00 AM): Hello\<close>: the en-US format puts a comma between the
  date and the time.
\<close>

theorem meeting_rendered:
  assumes "dateParse P ''2025-02-09T10:00:00'' = Some t"
    and "t + utcOffset P = 1739095200000"
  shows "formatLifelogMarkdown P (meeting title) =
           (case title of
              None \<Rightarrow> []
            | Some ti \<Rightarrow> if ti = [] then [] else ''# '' @ ti @ ''\<newline>'' @ ''\<newline>\<newline>'')
           @ ''## Meeting\<newline>'' @ ''\<newline>\<newline>''
           @ ''- Alice (02/09/25, 10:00 AM): Hello''"
proof -
  have msg: "blockquoteMessage P
       \<lparr>nodeType = ''blockquote'', nodeContent = ''Hello'', speakerName = Some ''Alice'',
        startTime = Some ''2025-02-09T10:00:00''\<rparr> = ''- Alice (02/09/25, 10:00 AM): Hello''"
    using assms by (simp add: blockquoteMessage_def toLocaleString_example)
  have blocks: "lifelogBlocks P (meeting title) =
      (case title of None \<Rightarrow> [] | Some ti \<Rightarrow> if ti = [] then [] else [''# '' @ ti @ ''\<newline>''])
      @ [''## Meeting\<newline>'', ''- Alice (02/09/25, 10:00 AM): Hello'']"
    by (simp add: lifelogBlocks_def meeting_def renderNode_def finalFlush_def msg
             split: option.splits)
  have md: "markdown (meeting title) = None"
    by (simp add: meeting_def)
  show ?thesis
    by (simp add: formatLifelogMarkdown_def blocks md split: option.splits)
qed

theorem meeting_rendered_witness:
  "dateParse utcPlatform ''2025-02-09T10:00:00'' = Some 1739095200000
   \<and> 1739095200000 + utcOffset utcPlatform = 1739095200000
   \<and> formatLifelogMarkdown utcPlatform (meeting None) =
        ''## Meeting\<newline>\<newline>\<newline>- Alice (02/09/25, 10:00 AM): Hello''"
proof -
  have a: "dateParse utcPlatform ''2025-02-09T10:00:00'' = Some 1739095200000"
    by (simp add: utcPlatform_def)
  have b: "1739095200000 + utcOffset utcPlatform = 1739095200000"
    by (simp add: utcPlatform_def)
  show ?thesis
    using meeting_rendered [OF a b, of None] a b by simp
qed

text \<open>
  The line as claim C5 words it, without the comma, is not in the document.
\<close>

theorem meeting_line_counterexample:
  "\<not> sublist ''- Alice (02/09/25 10:00 AM): Hello''
        (formatLifelogMarkdown utcPlatform (meeting None))"
  by code_simp

text \<open>
  Against claim C8 as worded: section A is open when the heading of section B arrives, it
  has no buffered line, and its heading never reaches the document.
\<close>

theorem empty_section_counterexample:
  "formatLifelogMarkdown utcPlatform twoHeadings = ''## B\<newline>\<newline>\<newline>- Speaker : x''
   \<and> \<not> sublist ''## A'' (formatLifelogMarkdown utcPlatform twoHeadings)"
  by code_simp


lemma joinWith_append:
  "xs \<noteq> [] \<Longrightarrow> ys \<noteq> [] \<Longrightarrow> joinWith sep (xs @ ys) = joinWith sep xs @ sep @ joinWith sep ys"
proof (induction sep xs rule: joinWith.induct)
  case (1 sep)
  then show ?case by simp
next
  case (2 sep x)
  then show ?case by (cases ys) simp_all
next
  case (3 sep x y ys')
  then show ?case by simp
qed

lemma joinWith_sublist:
  assumes "ys \<noteq> []"
  shows "sublist (joinWith sep ys) (joinWith sep (xs @ ys @ zs))"
proof -
  have mid: "sublist (joinWith sep ys) (joinWith sep (ys @ zs))"
  proof (cases "zs = []")
    case True
    then show ?thesis by simp
  next
    case False
    then show ?thesis using assms by (simp add: joinWith_append)
  qed
  show ?thesis
  proof (cases "xs = []")
    case True
    then show ?thesis using mid by simp
  next
    case False
    then have "joinWith sep (xs @ ys @ zs) = (joinWith sep xs @ sep) @ joinWith sep (ys @ zs)"
      using assms by (simp add: joinWith_append)
    moreover obtain ps ss where "joinWith sep (ys @ zs) = ps @ joinWith sep ys @ ss"
      using mid by (auto simp: sublist_def)
    ultimately have "joinWith sep (xs @ ys @ zs)
                       = (joinWith sep xs @ sep @ ps) @ joinWith sep ys @ ss"
      by simp
    then show ?thesis unfolding sublist_def by blast
  qed
qed

lemma renderNode_shift: "renderNode P (shift c s) n = shift c (renderNode P s n)"
  by (simp add: renderNode_def shift_def)

lemma foldl_renderNode_shift:
  "foldl (renderNode P) (shift c s) ns = shift c (foldl (renderNode P) s ns)"
  by (induction ns arbitrary: s) (simp_all add: renderNode_shift)

lemma finalFlush_shift: "finalFlush (shift c s) = c @ finalFlush s"
  by (simp add: finalFlush_def shift_def)

lemma open_section_body:
  assumes "\<forall>n\<in>set body. nodeType n \<noteq> ''heading2''" and "currentSection s \<noteq> []"
  shows "foldl (renderNode P) s body =
           \<lparr>rsContent = rsContent s @ otherBlocks body, currentSection = currentSection s,
            sectionMessages = sectionMessages s @ sectionLines P body\<rparr>"
  using assms
proof (induction body arbitrary: s)
  case Nil
  then show ?case by (simp add: otherBlocks_def sectionLines_def)
next
  case (Cons n body)
  let ?s1 = "renderNode P s n"
  have nh: "nodeType n \<noteq> ''heading2''" using Cons.prems(1) by simp
  have s1: "?s1 = \<lparr>rsContent = rsContent s @ otherBlocks [n], currentSection = currentSection s,
            sectionMessages = sectionMessages s @ sectionLines P [n]\<rparr>"
    using nh Cons.prems(2) by (simp add: renderNode_def otherBlocks_def sectionLines_def)
  have "foldl (renderNode P) ?s1 body =
           \<lparr>rsContent = rsContent ?s1 @ otherBlocks body, currentSection = currentSection ?s1,
            sectionMessages = sectionMessages ?s1 @ sectionLines P body\<rparr>"
    using Cons.prems s1 by (intro Cons.IH) simp_all
  then show ?case
    using s1 by (simp add: otherBlocks_def sectionLines_def)
qed

lemma no_section_body:
  assumes "\<forall>n\<in>set body. nodeType n \<noteq> ''heading2''" and "currentSection s = []"
  shows "foldl (renderNode P) s body = s\<lparr>rsContent := rsContent s @ topLevelBlocks P body\<rparr>"
  using assms
proof (induction body arbitrary: s)
  case Nil
  then show ?case by (simp add: topLevelBlocks_def)
next
  case (Cons n body)
  let ?s1 = "renderNode P s n"
  have nh: "nodeType n \<noteq> ''heading2''" using Cons.prems(1) by simp
  have s1: "?s1 = s\<lparr>rsContent := rsContent s @ topLevelBlocks P [n]\<rparr>"
    using nh Cons.prems(2) by (simp add: renderNode_def topLevelBlocks_def)
  have "foldl (renderNode P) ?s1 body = ?s1\<lparr>rsContent := rsContent ?s1 @ topLevelBlocks P body\<rparr>"
    using Cons.prems s1 by (intro Cons.IH) simp_all
  then show ?case
    using s1 by (simp add: topLevelBlocks_def)
qed

text \<open>The state when a section has been processed up to its last node.\<close>

lemma section_state:
  assumes h2: "nodeType h = ''heading2''"
    and body: "\<forall>n\<in>set body. nodeType n \<noteq> ''heading2''"
  shows "foldl (renderNode P) (renderNode P s h) body =
           \<lparr>rsContent = rsContent (renderNode P s h)
                          @ (if nodeContent h = [] then topLevelBlocks P body else otherBlocks body),
            currentSection = nodeContent h,
            sectionMessages = (if nodeContent h = [] then [] else sectionLines P body)\<rparr>"
proof -
  let ?s1 = "renderNode P s h"
  have sec: "currentSection ?s1 = nodeContent h" and msg: "sectionMessages ?s1 = []"
    using h2 by (simp_all add: renderNode_def)
  show ?thesis
  proof (cases "nodeContent h = []")
    case True
    then show ?thesis
      using no_section_body [OF body, of ?s1 P] sec msg by simp
  next
    case False
    then show ?thesis
      using open_section_body [OF body, of ?s1 P] sec msg by simp
  qed
qed

lemma restLifelog_blocks:
  "lifelogBlocks P (restLifelog rest) =
     finalFlush (foldl (renderNode P)
       \<lparr>rsContent = [], currentSection = [], sectionMessages = []\<rparr> rest)"
  by (simp add: lifelogBlocks_def restLifelog_def)

text \<open>The document is what was there when the section opened, the section, and the rest.\<close>

lemma section_decomposition:
  assumes cont: "contents l = pre @ [h] @ body @ rest"
    and h2: "nodeType h = ''heading2''"
    and body: "\<forall>n\<in>set body. nodeType n \<noteq> ''heading2''"
    and rest: "rest = [] \<or> nodeType (hd rest) = ''heading2''"
  shows "lifelogBlocks P l =
           openingBlocks P l pre h @ sectionBlocks P (nodeContent h) body (rest = [])
             @ lifelogBlocks P (restLifelog rest)"
proof -
  define s0 where "s0 = \<lparr>rsContent =
             (case lifelogTitle l of
                None \<Rightarrow> []
              | Some title \<Rightarrow> if title = [] then [] else [''# '' @ title @ ''\<newline>'']),
           currentSection = [], sectionMessages = []\<rparr>"
  define s1 where "s1 = renderNode P (foldl (renderNode P) s0 pre) h"
  define s2 where "s2 = foldl (renderNode P) s1 body"
  define init where "init = \<lparr>rsContent = [], currentSection = [], sectionMessages = ([] :: string list)\<rparr>"
  let ?t = "nodeContent h"
  have blocks: "lifelogBlocks P l = finalFlush (foldl (renderNode P) s2 rest)"
    by (simp add: lifelogBlocks_def cont s0_def s1_def s2_def)
  have opn: "openingBlocks P l pre h = rsContent s1"
    by (simp add: openingBlocks_def s0_def s1_def)
  have s2: "s2 = \<lparr>rsContent = rsContent s1
                          @ (if ?t = [] then topLevelBlocks P body else otherBlocks body),
            currentSection = ?t,
            sectionMessages = (if ?t = [] then [] else sectionLines P body)\<rparr>"
    unfolding s2_def s1_def by (rule section_state [OF h2 body])
  show ?thesis
  proof (cases rest)
    case Nil
    have "lifelogBlocks P (restLifelog rest) = []"
      using Nil by (simp add: restLifelog_blocks finalFlush_def)
    moreover have "finalFlush s2 = rsContent s1 @ sectionBlocks P ?t body True"
      by (simp add: s2 finalFlush_def sectionBlocks_def)
    ultimately show ?thesis using blocks opn Nil by simp
  next
    case (Cons r rs)
    then have r2: "nodeType r = ''heading2''" using rest by simp
    have step: "renderNode P s2 r =
                  shift (rsContent s1 @ sectionBlocks P ?t body False) (renderNode P init r)"
      using r2 by (simp add: s2 renderNode_def shift_def sectionBlocks_def init_def)
    have "finalFlush (foldl (renderNode P) s2 rest) =
            (rsContent s1 @ sectionBlocks P ?t body False)
              @ finalFlush (foldl (renderNode P) (renderNode P init r) rs)"
      using Cons by (simp add: step foldl_renderNode_shift finalFlush_shift)
    moreover have "lifelogBlocks P (restLifelog rest)
                     = finalFlush (foldl (renderNode P) (renderNode P init r) rs)"
      using Cons by (simp add: restLifelog_blocks init_def)
    ultimately show ?thesis using blocks opn Cons by simp
  qed
qed


text \<open>
  Claim C8, as amended. In content-node rendering (no pre-rendered markdown, or an empty
  one), take a heading2 node with its body, the nodes up to the next heading2 node or the
  end. The document consists of the blocks emitted until the section opens, the blocks of
  the section, and the rendering of the remaining nodes. The blocks of the section are:
  \<^item> with a non-empty title and at least one blockquote node in the body, the content of
    the other nodes and then, from the flush by the next heading2 node or by the end of the
    traversal, \<open>## title\<close> followed by the buffered lines, so that the heading followed by
    the lines stands in the document;
  \<^item> with a non-empty title and no blockquote node, only the content of the other nodes:
    the flush emits no heading;
  \<^item> with an empty title, no heading either: no section is open, and the lines of the
    blockquote nodes are emitted at top level where they stand.
\<close>

theorem section_with_lines_rendered:
  assumes md: "markdown l = None \<or> markdown l = Some []"
    and cont: "contents l = pre @ [h] @ body @ rest"
    and h2: "nodeType h = ''heading2''"
    and body: "\<forall>n\<in>set body. nodeType n \<noteq> ''heading2''"
    and rest: "rest = [] \<or> nodeType (hd rest) = ''heading2''"
  shows "formatLifelogMarkdown P l = joinWith ''\<newline>\<newline>'' (lifelogBlocks P l)
       \<and> lifelogBlocks P l =
           openingBlocks P l pre h @ sectionBlocks P (nodeContent h) body (rest = [])
             @ lifelogBlocks P (restLifelog rest)
       \<and> (nodeContent h \<noteq> [] \<and> sectionLines P body \<noteq> [] \<longrightarrow>
            sublist (''## '' @ nodeContent h @ ''\<newline>'' @ ''\<newline>\<newline>''
                       @ joinWith ''\<newline>\<newline>'' (sectionLines P body))
                    (formatLifelogMarkdown P l))
       \<and> (nodeContent h \<noteq> [] \<and> sectionLines P body = [] \<longrightarrow>
            sectionBlocks P (nodeContent h) body (rest = []) = otherBlocks body)
       \<and> (nodeContent h = [] \<longrightarrow>
            sectionBlocks P (nodeContent h) body (rest = []) = topLevelBlocks P body)"
proof -
  let ?head = "''## '' @ nodeContent h @ ''\<newline>''"
  have fmt: "formatLifelogMarkdown P l = joinWith ''\<newline>\<newline>'' (lifelogBlocks P l)"
    using md by (auto simp: formatLifelogMarkdown_def)
  have dec: "lifelogBlocks P l =
           openingBlocks P l pre h @ sectionBlocks P (nodeContent h) body (rest = [])
             @ lifelogBlocks P (restLifelog rest)"
    by (rule section_decomposition [OF cont h2 body rest])
  have pos: "sublist (?head @ ''\<newline>\<newline>''
                       @ joinWith ''\<newline>\<newline>'' (sectionLines P body))
                    (formatLifelogMarkdown P l)"
    if title: "nodeContent h \<noteq> []" and lines: "sectionLines P body \<noteq> []"
  proof -
    have "lifelogBlocks P l =
            (openingBlocks P l pre h @ otherBlocks body)
              @ ([?head] @ sectionLines P body)
              @ ((if rest = [] then [] else [[]]) @ lifelogBlocks P (restLifelog rest))"
      using title lines by (simp add: dec sectionBlocks_def)
    then have "sublist (joinWith ''\<newline>\<newline>'' ([?head] @ sectionLines P body))
                       (joinWith ''\<newline>\<newline>'' (lifelogBlocks P l))"
      using joinWith_sublist [of "[?head] @ sectionLines P body" "''\<newline>\<newline>''"
              "openingBlocks P l pre h @ otherBlocks body"
              "(if rest = [] then [] else [[]]) @ lifelogBlocks P (restLifelog rest)"]
      by simp
    moreover have "joinWith ''\<newline>\<newline>'' ([?head] @ sectionLines P body)
          = ?head @ ''\<newline>\<newline>'' @ joinWith ''\<newline>\<newline>'' (sectionLines P body)"
      using lines by (cases "sectionLines P body") simp_all
    ultimately show ?thesis by (simp add: fmt)
  qed
  have neg1: "sectionBlocks P (nodeContent h) body (rest = []) = otherBlocks body"
    if "nodeContent h \<noteq> []" and "sectionLines P body = []"
    using that by (simp add: sectionBlocks_def)
  have neg2: "sectionBlocks P (nodeContent h) body (rest = []) = topLevelBlocks P body"
    if "nodeContent h = []"
    using that by (simp add: sectionBlocks_def)
  show ?thesis using fmt dec pos neg1 neg2 by simp
qed

lemma fourSections_rendered:
  "lifelogBlocks utcPlatform fourSections =
     [''## A\<newline>'', ''- Speaker : x'', [], ''note'', ''- Speaker : y'', ''## C\<newline>'',
      ''- Speaker : z'']"
  "formatLifelogMarkdown utcPlatform fourSections =
     ''## A\<newline>\<newline>\<newline>- Speaker : x\<newline>\<newline>\<newline>\<newline>note\<newline>\<newline>- Speaker : y\<newline>\<newline>## C\<newline>\<newline>\<newline>- Speaker : z''"
  "sectionLines utcPlatform [quoteNode ''x''] = [''- Speaker : x'']"
  "sectionLines utcPlatform [paragraphNode ''note''] = []"
  "sectionLines utcPlatform [quoteNode ''z''] = [''- Speaker : z'']"
  "otherBlocks [paragraphNode ''note''] = [''note'']"
  "topLevelBlocks utcPlatform [quoteNode ''y''] = [''- Speaker : y'']"
  by code_simp+

lemma fourSections_nodes:
  "nodeType (heading2Node t) = ''heading2''" "nodeContent (heading2Node t) = t"
  "nodeType (quoteNode t) \<noteq> ''heading2''" "nodeType (paragraphNode t) \<noteq> ''heading2''"
  "markdown fourSections = Some []"
  by (simp_all add: heading2Node_def quoteNode_def paragraphNode_def fourSections_def)

theorem section_with_lines_rendered_witness:
  "sublist ''## A\<newline>\<newline>\<newline>- Speaker : x'' (formatLifelogMarkdown utcPlatform fourSections)
   \<and> sublist ''## C\<newline>\<newline>\<newline>- Speaker : z'' (formatLifelogMarkdown utcPlatform fourSections)
   \<and> sectionBlocks utcPlatform ''B'' [paragraphNode ''note''] False = [''note'']
   \<and> sectionBlocks utcPlatform [] [quoteNode ''y''] False = [''- Speaker : y'']
   \<and> lifelogBlocks utcPlatform fourSections =
        [''## A\<newline>'', ''- Speaker : x'', [], ''note'', ''- Speaker : y'', ''## C\<newline>'',
         ''- Speaker : z'']
   \<and> \<not> sublist ''## B'' (formatLifelogMarkdown utcPlatform fourSections)"
proof -
  let ?l = fourSections
  let ?P = utcPlatform
  have md: "markdown ?l = None \<or> markdown ?l = Some []"
    by (simp add: fourSections_nodes)
  have h2: "nodeType (heading2Node t) = ''heading2''" for t
    by (rule fourSections_nodes(1))
  have rest: "[] = [] \<or> nodeType (hd ([] :: node list)) = ''heading2''"
    "heading2Node t # ns = [] \<or> nodeType (hd (heading2Node t # ns)) = ''heading2''" for t ns
    by (simp_all add: fourSections_nodes)
  have body: "\<forall>n\<in>set [quoteNode t]. nodeType n \<noteq> ''heading2''"
    "\<forall>n\<in>set [paragraphNode t]. nodeType n \<noteq> ''heading2''" for t
    by (simp_all add: fourSections_nodes)
  have contA: "contents ?l = [] @ [heading2Node ''A''] @ [quoteNode ''x'']
                 @ (heading2Node ''B'' # [paragraphNode ''note'', heading2Node [], quoteNode ''y'',
                      heading2Node ''C'', quoteNode ''z''])"
    and contB: "contents ?l = [heading2Node ''A'', quoteNode ''x''] @ [heading2Node ''B'']
                 @ [paragraphNode ''note'']
                 @ (heading2Node [] # [quoteNode ''y'', heading2Node ''C'', quoteNode ''z''])"
    and contE: "contents ?l = [heading2Node ''A'', quoteNode ''x'', heading2Node ''B'',
                   paragraphNode ''note''] @ [heading2Node []] @ [quoteNode ''y'']
                 @ (heading2Node ''C'' # [quoteNode ''z''])"
    and contC: "contents ?l = [heading2Node ''A'', quoteNode ''x'', heading2Node ''B'',
                   paragraphNode ''note'', heading2Node [], quoteNode ''y'']
                 @ [heading2Node ''C''] @ [quoteNode ''z''] @ []"
    by (simp_all add: fourSections_def)
  note A = section_with_lines_rendered [OF md contA h2 body(1) rest(2), of ?P]
  note B = section_with_lines_rendered [OF md contB h2 body(2) rest(2), of ?P]
  note E = section_with_lines_rendered [OF md contE h2 body(1) rest(2), of ?P]
  note C = section_with_lines_rendered [OF md contC h2 body(1) rest(1), of ?P]
  have a: "sublist ''## A\<newline>\<newline>\<newline>- Speaker : x'' (formatLifelogMarkdown ?P ?l)"
    using A [THEN conjunct2, THEN conjunct2, THEN conjunct1]
    by (simp add: fourSections_nodes(2) fourSections_rendered(3))
  have c: "sublist ''## C\<newline>\<newline>\<newline>- Speaker : z'' (formatLifelogMarkdown ?P ?l)"
    using C [THEN conjunct2, THEN conjunct2, THEN conjunct1]
    by (simp add: fourSections_nodes(2) fourSections_rendered(5))
  have b: "sectionBlocks ?P ''B'' [paragraphNode ''note''] False = [''note'']"
    using B [THEN conjunct2, THEN conjunct2, THEN conjunct2, THEN conjunct1]
    by (simp add: fourSections_nodes(2) fourSections_rendered(4,6))
  have e: "sectionBlocks ?P [] [quoteNode ''y''] False = [''- Speaker : y'']"
    using E [THEN conjunct2, THEN conjunct2, THEN conjunct2, THEN conjunct2]
    by (simp add: fourSections_nodes(2) fourSections_rendered(7))
  have n: "\<not> sublist ''## B'' (formatLifelogMarkdown ?P ?l)"
    unfolding fourSections_rendered(2) by code_simp
  show ?thesis using a b c e n fourSections_rendered(1) by simp
qed


subsection \<open>Chat file paths\<close>







subsection \<open>Chat sync: the count of processed chats\<close>

lemma processChatFileResult_unfold:
  "processChatFileResult P S v c folder =
     (case getChatFilePath P S c folder of
        Inl e \<Rightarrow> \<lparr>pcVault = v, pcWrites = [], pcError = Some e\<rparr>
      | Inr filePath \<Rightarrow>
          (let text = formatChatMarkdown P c;
               existingContent = getExistingFileContent v filePath
           in if existingContent \<noteq> Some text then
                (case adapterWrite v filePath text of
                   Inl e \<Rightarrow> \<lparr>pcVault = v, pcWrites = [(filePath, text)], pcError = Some e\<rparr>
                 | Inr v' \<Rightarrow> \<lparr>pcVault = v', pcWrites = [(filePath, text)], pcError = None\<rparr>)
              else \<lparr>pcVault = v, pcWrites = [], pcError = None\<rparr>))"
  by (auto simp: processChatFileResult_def processChatFileTry_def Let_def split: sum.splits)

lemma processChat_unfold:
  "processChat P S folder st c =
     (let r = processChatFileResult P S (csVault st) c folder
      in \<lparr>csVault = pcVault r,
          processedChats = processedChats st + 1,
          csHandled = csHandled st @ [c],
          csWrites = csWrites st @ pcWrites r,
          csLogged = csLogged st @ (case pcError r of None \<Rightarrow> [] | Some e \<Rightarrow> [e])\<rparr>)"
  by (simp add: processChat_def countChat_def Let_def)

text \<open>Every call of \<open>processChatFile\<close> returns, so the loop over a page runs to its end.\<close>

lemma processChatFile_returns:
  "processChatFile P S v c folder = Inr (processChatFileResult P S v c folder)"
  by (simp add: processChatFile_def processChatFileResult_def split: sum.splits prod.splits)

lemma processPage_as_fold:
  "processPage P S folder st cs = Inr (foldl (processChat P S folder) st cs)"
  by (induction cs arbitrary: st) (simp_all add: processChatFile_returns processChat_def)

lemma processChat_fields:
  "processedChats (processChat P S folder st c) = processedChats st + 1"
  "csHandled (processChat P S folder st c) = csHandled st @ [c]"
  by (simp_all add: processChat_unfold Let_def)

lemma foldl_processChat_fields:
  "processedChats (foldl (processChat P S folder) st cs) = processedChats st + length cs
   \<and> csHandled (foldl (processChat P S folder) st cs) = csHandled st @ cs"
  by (induction cs arbitrary: st) (simp_all add: processChat_fields)

lemma syncChatsLoop_as_fold:
  "syncChatsLoop fuel P S folder cursor st =
     map_option (\<lambda>(r, cs). (r, foldl (processChat P S folder) st cs))
       (fetchedChats fuel P S cursor (processedChats st))"
proof (induction fuel arbitrary: cursor st)
  case 0
  then show ?case by simp
next
  case (Suc fuel)
  show ?case
  proof (cases "getChats P (chatPageParams P S cursor)")
    case (Inl e)
    then show ?thesis by simp
  next
    case (Inr pn)
    obtain page "next" where pn: "pn = (page, next)" by (cases pn)
    let ?st = "foldl (processChat P S folder) st page"
    have cnt: "processedChats ?st = processedChats st + length page"
      by (simp add: foldl_processChat_fields)
    show ?thesis
    proof (cases "truthy next \<and> int (processedChats st + length page) < chatCap S")
      case True
      then show ?thesis
        using Inr pn cnt Suc.IH [of "next" ?st]
        by (auto simp: processPage_as_fold split: option.splits)
    next
      case False
      then show ?thesis
        using Inr pn cnt by (auto simp: processPage_as_fold)
    qed
  qed
qed


lemma syncChatsLoop_count:
  assumes "syncChatsLoop fuel P S folder cursor st = Some (res, st')"
  shows "\<exists>cs. fetchedChats fuel P S cursor (processedChats st) = Some (res, cs)
            \<and> processedChats st' = processedChats st + length cs
            \<and> csHandled st' = csHandled st @ cs"
proof -
  have "\<exists>cs. fetchedChats fuel P S cursor (processedChats st) = Some (res, cs)
             \<and> st' = foldl (processChat P S folder) st cs"
    using assms unfolding syncChatsLoop_as_fold
    by (cases "fetchedChats fuel P S cursor (processedChats st)") auto
  then show ?thesis by (auto simp: foldl_processChat_fields)
qed

text \<open>
  Claim C10. A call of \<open>processChatFile\<close> always returns to \<open>syncChats\<close>: when an error is
  thrown inside its \<open>try\<close> block (the path could not be computed, or the write was
  rejected), the call returns all the same, with the error logged and the vault as it was.
  So the loop over a page is never left early, and it increments \<open>processedChats\<close> once
  for every chat of the page, whether its processing succeeded or not. When \<open>syncChats\<close>
  has fetched its pages, \<open>processedChats\<close> is therefore the number of chats in the pages
  fetched, the chats whose files were never written included.
\<close>

theorem failed_chats_are_counted:
  "(\<exists>r. processChatFile P S v c folder = Inr r
        \<and> (\<forall>e ws. processChatFileTry P S v c folder = Inl (e, ws) \<longrightarrow>
               pcVault r = v \<and> pcError r = Some e))
   \<and> (\<exists>st'. processPage P S folder st page = Inr st'
           \<and> processedChats st' = processedChats st + length page
           \<and> csHandled st' = csHandled st @ page)
   \<and> (syncChatsFlag S \<and> apiKey S \<noteq> []
        \<and> ensureFolderExists v (normalizePath P (chatFolderPath S)) = Inr v1
        \<and> syncChats fuel P S v = Some result \<longrightarrow>
        (\<exists>res cs. fetchedChats fuel P S None 0 = Some (res, cs)
            \<and> processedChats (chatFinal result) = length cs
            \<and> csHandled (chatFinal result) = cs
            \<and> chatOutcome result = (case res of None \<Rightarrow> Complete | Some e \<Rightarrow> Failed e)))"
proof (intro conjI)
  show "\<exists>r. processChatFile P S v c folder = Inr r
        \<and> (\<forall>e ws. processChatFileTry P S v c folder = Inl (e, ws) \<longrightarrow>
               pcVault r = v \<and> pcError r = Some e)"
    by (cases "processChatFileTry P S v c folder") (auto simp: processChatFile_def)
next
  show "\<exists>st'. processPage P S folder st page = Inr st'
           \<and> processedChats st' = processedChats st + length page
           \<and> csHandled st' = csHandled st @ page"
    by (simp add: processPage_as_fold foldl_processChat_fields)
next
  let ?folder = "normalizePath P (chatFolderPath S)"
  show "syncChatsFlag S \<and> apiKey S \<noteq> []
        \<and> ensureFolderExists v ?folder = Inr v1
        \<and> syncChats fuel P S v = Some result \<longrightarrow>
        (\<exists>res cs. fetchedChats fuel P S None 0 = Some (res, cs)
            \<and> processedChats (chatFinal result) = length cs
            \<and> csHandled (chatFinal result) = cs
            \<and> chatOutcome result = (case res of None \<Rightarrow> Complete | Some e \<Rightarrow> Failed e))"
  proof (rule impI)
    assume asm: "syncChatsFlag S \<and> apiKey S \<noteq> []
        \<and> ensureFolderExists v ?folder = Inr v1
        \<and> syncChats fuel P S v = Some result"
    then have a1: "syncChatsFlag S" and a2: "apiKey S \<noteq> []"
      and a3: "ensureFolderExists v ?folder = Inr v1"
      and a4: "syncChats fuel P S v = Some result"
      by simp_all
    have "(case syncChatsLoop fuel P S ?folder None (initialChatState v1) of
                  None \<Rightarrow> None
                | Some (None, st) \<Rightarrow> Some \<lparr>chatOutcome = Complete, chatFinal = st\<rparr>
                | Some (Some e, st) \<Rightarrow> Some \<lparr>chatOutcome = Failed e, chatFinal = st\<rparr>)
               = Some result"
      using a1 a2 a3 a4 by (simp add: syncChats_def Let_def)
    then obtain res where
      loop: "syncChatsLoop fuel P S ?folder None (initialChatState v1) = Some (res, chatFinal result)"
      and out: "chatOutcome result = (case res of None \<Rightarrow> Complete | Some e \<Rightarrow> Failed e)"
      by (auto split: option.splits prod.splits)
    from syncChatsLoop_count [OF loop] out show
      "\<exists>res cs. fetchedChats fuel P S None 0 = Some (res, cs)
            \<and> processedChats (chatFinal result) = length cs
            \<and> csHandled (chatFinal result) = cs
            \<and> chatOutcome result = (case res of None \<Rightarrow> Complete | Some e \<Rightarrow> Failed e)"
      by (auto simp: initialChatState_def)
  qed
qed

lemma halfLocked_facts:
  "(case processChatFileTry (chatService [sampleChat ''a'', sampleChat ''b''] None)
           (sampleSettings ''per-chat'' 50) halfLockedVault (sampleChat ''a'') ''Limitless Chats'' of
      Inl (e, ws) \<Rightarrow> Some (e, map fst ws)
    | Inr r \<Rightarrow> None)
   = Some (StoreError ''Limitless Chats/Plan - a.md'', [''Limitless Chats/Plan - a.md''])"
  "map_option (\<lambda>r. (processedChats (chatFinal r), map fst (vaultFiles (csVault (chatFinal r))),
                      csLogged (chatFinal r)))
     (syncChats 1 (chatService [sampleChat ''a'', sampleChat ''b''] None)
        (sampleSettings ''per-chat'' 50) halfLockedVault)
   = Some (2, [''Limitless Chats/Plan - b.md''], [StoreError ''Limitless Chats/Plan - a.md''])"
  "map_option (\<lambda>(res, cs). cs)
     (fetchedChats 1 (chatService [sampleChat ''a'', sampleChat ''b''] None)
        (sampleSettings ''per-chat'' 50) None 0)
   = Some [sampleChat ''a'', sampleChat ''b'']"
  by code_simp+

theorem failed_chats_are_counted_witness:
  "(\<exists>r. processChatFile (chatService [sampleChat ''a'', sampleChat ''b''] None)
          (sampleSettings ''per-chat'' 50) halfLockedVault (sampleChat ''a'') ''Limitless Chats''
          = Inr r
        \<and> vaultFiles (pcVault r) = []
        \<and> pcError r = Some (StoreError ''Limitless Chats/Plan - a.md''))
   \<and> (\<exists>result. syncChats 1 (chatService [sampleChat ''a'', sampleChat ''b''] None)
          (sampleSettings ''per-chat'' 50) halfLockedVault = Some result
        \<and> processedChats (chatFinal result) = 2
        \<and> csHandled (chatFinal result) = [sampleChat ''a'', sampleChat ''b'']
        \<and> map fst (vaultFiles (csVault (chatFinal result))) = [''Limitless Chats/Plan - b.md'']
        \<and> csLogged (chatFinal result) = [StoreError ''Limitless Chats/Plan - a.md''])"
proof -
  let ?P = "chatService [sampleChat ''a'', sampleChat ''b''] None"
  let ?S = "sampleSettings ''per-chat'' 50"
  let ?folder = "''Limitless Chats''"
  note T = failed_chats_are_counted
             [of ?P ?S halfLockedVault "sampleChat ''a''" ?folder
                 "initialChatState halfLockedVault" "[sampleChat ''a'', sampleChat ''b'']"
                 halfLockedVault 1]
  have first: "\<exists>r. processChatFile ?P ?S halfLockedVault (sampleChat ''a'') ?folder = Inr r
        \<and> vaultFiles (pcVault r) = []
        \<and> pcError r = Some (StoreError ''Limitless Chats/Plan - a.md'')"
  proof -
    obtain e ws where
      "processChatFileTry ?P ?S halfLockedVault (sampleChat ''a'') ?folder = Inl (e, ws)"
      and "e = StoreError ''Limitless Chats/Plan - a.md''"
      using halfLocked_facts(1)
      by (cases "processChatFileTry ?P ?S halfLockedVault (sampleChat ''a'') ?folder") auto
    then show ?thesis
      using T [THEN conjunct1] by (auto simp: halfLockedVault_def)
  qed
  obtain result where run: "syncChats 1 ?P ?S halfLockedVault = Some result"
    and n: "processedChats (chatFinal result) = 2"
    and f: "map fst (vaultFiles (csVault (chatFinal result))) = [''Limitless Chats/Plan - b.md'']"
    and g: "csLogged (chatFinal result) = [StoreError ''Limitless Chats/Plan - a.md'']"
    using halfLocked_facts(2) by (cases "syncChats 1 ?P ?S halfLockedVault") auto
  have pre: "syncChatsFlag ?S \<and> apiKey ?S \<noteq> []
        \<and> ensureFolderExists halfLockedVault (normalizePath ?P (chatFolderPath ?S))
              = Inr halfLockedVault
        \<and> syncChats 1 ?P ?S halfLockedVault = Some result"
    using run
    by (simp add: sampleSettings_def chatService_def ensureFolderExists_def halfLockedVault_def)
  have "\<exists>res cs. fetchedChats 1 ?P ?S None 0 = Some (res, cs)
            \<and> processedChats (chatFinal result) = length cs
            \<and> csHandled (chatFinal result) = cs"
    using T [THEN conjunct2, THEN conjunct2, rule_format, OF pre] by blast
  then have h: "csHandled (chatFinal result) = [sampleChat ''a'', sampleChat ''b'']"
    using halfLocked_facts(3) by auto
  have "\<exists>result. syncChats 1 ?P ?S halfLockedVault = Some result
        \<and> processedChats (chatFinal result) = 2
        \<and> csHandled (chatFinal result) = [sampleChat ''a'', sampleChat ''b'']
        \<and> map fst (vaultFiles (csVault (chatFinal result))) = [''Limitless Chats/Plan - b.md'']
        \<and> csLogged (chatFinal result) = [StoreError ''Limitless Chats/Plan - a.md'']"
    by (rule exI [of _ result]) (simp only: run n h f g simp_thms)
  with first show ?thesis by (rule conjI)
qed

lemma syncChats_complete:
  assumes "syncChatsFlag S" and "apiKey S \<noteq> []"
    and "ensureFolderExists v (normalizePath P (chatFolderPath S)) = Inr v1"
    and "fetchedChats fuel P S None 0 = Some (None, cs)"
  shows "syncChats fuel P S v =
           Some \<lparr>chatOutcome = Complete,
                 chatFinal = foldl (processChat P S (normalizePath P (chatFolderPath S)))
                               (initialChatState v1) cs\<rparr>"
proof -
  have "syncChatsLoop fuel P S (normalizePath P (chatFolderPath S)) None (initialChatState v1)
          = Some (None, foldl (processChat P S (normalizePath P (chatFolderPath S)))
                          (initialChatState v1) cs)"
    using assms(4) by (simp add: syncChatsLoop_as_fold initialChatState_def)
  then show ?thesis
    using assms(1-3) by (simp add: syncChats_def Let_def)
qed

lemma fullPages_fetched:
  "map_option (\<lambda>(r, cs). (r, length cs))
     (fetchedChats 2 (chatService (replicate 100 (sampleChat ''a'')) (Some ''next''))
        (sampleSettings ''per-chat'' 151) None 0) = Some (None, 200)"
  by code_simp

text \<open>
  Claim C1 fails on the code. With \<open>maxChatsPerSync = 151\<close> the page limit is 100; the
  service answers with two full pages of 100 chats, each with a next cursor. After the first
  page 100 is below 151, so a second page is fetched and processed whole: 200 chats are
  processed, more than \<open>clamp(151, 1, 200) = 151\<close>.
\<close>

theorem chat_cap_exceeded:
  "\<exists>r. syncChats 2 (chatService (replicate 100 (sampleChat ''a'')) (Some ''next''))
          (sampleSettings ''per-chat'' 151) emptyVault = Some r
       \<and> chatOutcome r = Complete
       \<and> processedChats (chatFinal r) = 200
       \<and> max 1 (min 200 (maxChatsPerSync (sampleSettings ''per-chat'' 151))) = 151"
proof -
  let ?P = "chatService (replicate 100 (sampleChat ''a'')) (Some ''next'')"
  let ?S = "sampleSettings ''per-chat'' 151"
  obtain cs where f: "fetchedChats 2 ?P ?S None 0 = Some (None, cs)" and l: "length cs = 200"
    using fullPages_fetched
    by (cases "fetchedChats 2 ?P ?S None 0") auto
  have e: "ensureFolderExists emptyVault (normalizePath ?P (chatFolderPath ?S))
             = Inr (emptyVault\<lparr>vaultFolders := [''Limitless Chats'']\<rparr>)"
    by (simp add: ensureFolderExists_def emptyVault_def chatService_def sampleSettings_def)
  have "syncChatsFlag ?S" "apiKey ?S \<noteq> []"
    by (simp_all add: sampleSettings_def)
  from syncChats_complete [OF this e f] show ?thesis
    using l by (simp add: foldl_processChat_fields initialChatState_def sampleSettings_def)
qed


subsection \<open>Chat sync: writes of a second run\<close>

lemma adapterWrite_read:
  assumes "adapterWrite v p t = Inr v'"
  shows "adapterRead v' q = (if q = p then Some t else adapterRead v q)"
    and "vaultFolders v' = vaultFolders v" and "readOnly v' = readOnly v"
  using assms
  by (auto simp: adapterWrite_def adapterRead_def AList.update_conv' split: if_splits)

lemma processChatFile_writes:
  "pcWrites (processChatFileResult P S v c folder) =
     (case getChatFilePath P S c folder of
        Inl e \<Rightarrow> []
      | Inr p \<Rightarrow> if adapterRead v p = Some (formatChatMarkdown P c) then []
                 else [(p, formatChatMarkdown P c)])"
  by (auto simp: processChatFileResult_unfold getExistingFileContent_def Let_def split: sum.splits)

lemma processChatFile_ok:
  assumes "pcError (processChatFileResult P S v c folder) = None"
  shows "\<exists>p. getChatFilePath P S c folder = Inr p
            \<and> adapterRead (pcVault (processChatFileResult P S v c folder)) p
                = Some (formatChatMarkdown P c)
            \<and> (\<forall>q. q \<noteq> p \<longrightarrow>
                 adapterRead (pcVault (processChatFileResult P S v c folder)) q = adapterRead v q)"
proof (cases "getChatFilePath P S c folder")
  case (Inl e)
  then show ?thesis using assms by (simp add: processChatFileResult_unfold)
next
  case (Inr p)
  show ?thesis
  proof (cases "adapterRead v p = Some (formatChatMarkdown P c)")
    case True
    then show ?thesis
      using Inr by (simp add: processChatFileResult_unfold getExistingFileContent_def)
  next
    case False
    then obtain v' where w: "adapterWrite v p (formatChatMarkdown P c) = Inr v'"
      using assms Inr
      by (cases "adapterWrite v p (formatChatMarkdown P c)")
         (simp_all add: processChatFileResult_unfold getExistingFileContent_def)
    then have "pcVault (processChatFileResult P S v c folder) = v'"
      using Inr False by (simp add: processChatFileResult_unfold getExistingFileContent_def)
    then show ?thesis
      using Inr adapterWrite_read(1) [OF w] by simp
  qed
qed

lemma processChatFile_folders:
  "vaultFolders (pcVault (processChatFileResult P S v c folder)) = vaultFolders v
   \<and> readOnly (pcVault (processChatFileResult P S v c folder)) = readOnly v"
  by (auto simp: processChatFileResult_unfold getExistingFileContent_def Let_def adapterWrite_def
           split: sum.splits if_splits)

lemma foldl_processChat_folders:
  "vaultFolders (csVault (foldl (processChat P S folder) st cs)) = vaultFolders (csVault st)
   \<and> readOnly (csVault (foldl (processChat P S folder) st cs)) = readOnly (csVault st)"
proof (induction cs arbitrary: st)
  case Nil
  then show ?case by simp
next
  case (Cons c cs)
  have "csVault (processChat P S folder st c) = pcVault (processChatFileResult P S (csVault st) c folder)"
    by (simp add: processChat_unfold Let_def)
  then show ?case
    using Cons.IH [of "processChat P S folder st c"] processChatFile_folders [of P S "csVault st" c folder]
    by simp
qed

lemma processChat_logged:
  "csLogged (processChat P S folder st c) = csLogged st \<Longrightarrow>
     pcError (processChatFileResult P S (csVault st) c folder) = None"
  by (simp add: processChat_unfold Let_def split: option.splits)

lemma foldl_processChat_logged:
  "\<exists>es. csLogged (foldl (processChat P S folder) st cs) = csLogged st @ es"
proof (induction cs arbitrary: st)
  case Nil
  then show ?case by simp
next
  case (Cons c cs)
  obtain e1 where "csLogged (processChat P S folder st c) = csLogged st @ e1"
    by (simp add: processChat_unfold Let_def)
  moreover obtain e2 where
    "csLogged (foldl (processChat P S folder) (processChat P S folder st c) cs)
       = csLogged (processChat P S folder st c) @ e2"
    using Cons.IH by blast
  ultimately show ?case by simp
qed

text \<open>After a run without logged errors every chat finds its own text at its path.\<close>

lemma processChat_ok:
  assumes "csLogged (processChat P S folder st c) = csLogged st"
  shows "\<exists>p. getChatFilePath P S c folder = Inr p
            \<and> adapterRead (csVault (processChat P S folder st c)) p
                = Some (formatChatMarkdown P c)
            \<and> (\<forall>q. q \<noteq> p \<longrightarrow>
                 adapterRead (csVault (processChat P S folder st c)) q
                   = adapterRead (csVault st) q)"
proof -
  have "csVault (processChat P S folder st c)
          = pcVault (processChatFileResult P S (csVault st) c folder)"
    by (simp add: processChat_unfold Let_def)
  then show ?thesis
    using processChatFile_ok [OF processChat_logged [OF assms]] by simp
qed

lemma foldl_processChat_stored:
  assumes "csLogged (foldl (processChat P S folder) st cs) = csLogged st"
    and "\<forall>c\<in>set cs. \<forall>c'\<in>set cs.
           getChatFilePath P S c folder = getChatFilePath P S c' folder \<longrightarrow>
           formatChatMarkdown P c = formatChatMarkdown P c'"
  shows "\<forall>c\<in>set cs. \<exists>p. getChatFilePath P S c folder = Inr p
           \<and> adapterRead (csVault (foldl (processChat P S folder) st cs)) p
               = Some (formatChatMarkdown P c)"
  using assms
proof (induction cs rule: rev_induct)
  case Nil
  then show ?case by simp
next
  case (snoc c cs)
  let ?st1 = "foldl (processChat P S folder) st cs"
  let ?st2 = "processChat P S folder ?st1 c"
  obtain e1 where e1: "csLogged ?st1 = csLogged st @ e1"
    using foldl_processChat_logged by blast
  obtain e2 where e2: "csLogged ?st2 = csLogged ?st1 @ e2"
    by (simp add: processChat_unfold Let_def)
  have tot: "csLogged ?st2 = csLogged st" using snoc.prems(1) by simp
  have "csLogged st @ e1 @ e2 = csLogged st @ []" using e1 e2 tot by simp
  then have "e1 = []" "e2 = []" by simp_all
  then have log1: "csLogged ?st1 = csLogged st" and log2: "csLogged ?st2 = csLogged ?st1"
    using e1 e2 by simp_all
  have compat: "\<forall>a\<in>set cs. \<forall>b\<in>set cs.
           getChatFilePath P S a folder = getChatFilePath P S b folder \<longrightarrow>
           formatChatMarkdown P a = formatChatMarkdown P b"
  proof (intro ballI impI)
    fix a b
    assume "a \<in> set cs" "b \<in> set cs"
      and "getChatFilePath P S a folder = getChatFilePath P S b folder"
    moreover have "set cs \<subseteq> set (cs @ [c])" by auto
    ultimately show "formatChatMarkdown P a = formatChatMarkdown P b"
      using snoc.prems(2) by blast
  qed
  have IH: "\<forall>a\<in>set cs. \<exists>p. getChatFilePath P S a folder = Inr p
           \<and> adapterRead (csVault ?st1) p = Some (formatChatMarkdown P a)"
    using snoc.IH [OF log1 compat] .
  obtain p where p: "getChatFilePath P S c folder = Inr p"
    and rp: "adapterRead (csVault ?st2) p = Some (formatChatMarkdown P c)"
    and other: "\<forall>q. q \<noteq> p \<longrightarrow> adapterRead (csVault ?st2) q = adapterRead (csVault ?st1) q"
    using processChat_ok [OF log2] by blast
  have "\<exists>q. getChatFilePath P S a folder = Inr q
           \<and> adapterRead (csVault ?st2) q = Some (formatChatMarkdown P a)"
    if a: "a \<in> set (cs @ [c])" for a
  proof (cases "a = c")
    case True
    then show ?thesis using p rp by blast
  next
    case False
    then have ain: "a \<in> set cs" using a by simp
    then obtain q where q: "getChatFilePath P S a folder = Inr q"
      and rq: "adapterRead (csVault ?st1) q = Some (formatChatMarkdown P a)"
      using IH by blast
    show ?thesis
    proof (cases "q = p")
      case True
      have "a \<in> set (cs @ [c])" "c \<in> set (cs @ [c])" using ain by simp_all
      moreover have "getChatFilePath P S a folder = getChatFilePath P S c folder"
        using True p q by simp
      ultimately have "formatChatMarkdown P a = formatChatMarkdown P c"
        using snoc.prems(2) by blast
      then show ?thesis using True q rp by simp
    next
      case False
      then have "adapterRead (csVault ?st2) q = adapterRead (csVault ?st1) q"
        using other by blast
      then show ?thesis using q rq by simp
    qed
  qed
  then show ?case by (simp del: set_append)
qed

text \<open>On such a vault a run changes nothing and writes nothing.\<close>

lemma foldl_processChat_stable:
  assumes "\<forall>c\<in>set cs. \<exists>p. getChatFilePath P S c folder = Inr p
           \<and> adapterRead (csVault st) p = Some (formatChatMarkdown P c)"
  shows "foldl (processChat P S folder) st cs =
           st\<lparr>processedChats := processedChats st + length cs, csHandled := csHandled st @ cs\<rparr>"
  using assms
proof (induction cs arbitrary: st)
  case Nil
  then show ?case by simp
next
  case (Cons c cs)
  obtain p where p: "getChatFilePath P S c folder = Inr p"
    and rp: "adapterRead (csVault st) p = Some (formatChatMarkdown P c)"
    using Cons.prems by auto
  have step: "processChat P S folder st c =
          st\<lparr>processedChats := processedChats st + 1, csHandled := csHandled st @ [c]\<rparr>"
    using p rp by (simp add: processChat_unfold processChatFileResult_unfold getExistingFileContent_def)
  have "\<forall>a\<in>set cs. \<exists>q. getChatFilePath P S a folder = Inr q
           \<and> adapterRead (csVault (processChat P S folder st c)) q = Some (formatChatMarkdown P a)"
    using Cons.prems step by simp
  from Cons.IH [OF this] show ?case by (simp add: step)
qed


lemma ensureFolderExists_member:
  "ensureFolderExists v folder = Inr v1 \<Longrightarrow>
     folder \<in> set (vaultFolders v1) \<and> vaultFiles v1 = vaultFiles v"
  by (auto simp: ensureFolderExists_def split: if_splits)

lemma ensureFolderExists_present:
  "folder \<in> set (vaultFolders v) \<Longrightarrow> ensureFolderExists v folder = Inr v"
  by (simp add: ensureFolderExists_def)

text \<open>The second run of the loop, on the vault the first run left.\<close>

lemma second_loop_writes_nothing:
  assumes f: "fetchedChats fuel P S None 0 = Some (res, cs)"
    and st1: "st1 = foldl (processChat P S folder) (initialChatState v1) cs"
    and nolog: "csLogged st1 = []"
    and compat: "\<forall>c\<in>set cs. \<forall>c'\<in>set cs.
           getChatFilePath P S c folder = getChatFilePath P S c' folder \<longrightarrow>
           formatChatMarkdown P c = formatChatMarkdown P c'"
  shows "syncChatsLoop fuel P S folder None (initialChatState (csVault st1)) =
           Some (res, \<lparr>csVault = csVault st1, processedChats = length cs, csHandled = cs,
                       csWrites = [], csLogged = []\<rparr>)"
proof -
  have "csLogged (foldl (processChat P S folder) (initialChatState v1) cs)
          = csLogged (initialChatState v1)"
    using nolog st1 by (simp add: initialChatState_def)
  from foldl_processChat_stored [OF this compat]
  have "\<forall>c\<in>set cs. \<exists>p. getChatFilePath P S c folder = Inr p
           \<and> adapterRead (csVault (initialChatState (csVault st1))) p
               = Some (formatChatMarkdown P c)"
    using st1 by (simp add: initialChatState_def)
  from foldl_processChat_stable [OF this]
  have "foldl (processChat P S folder) (initialChatState (csVault st1)) cs =
          \<lparr>csVault = csVault st1, processedChats = length cs, csHandled = cs,
           csWrites = [], csLogged = []\<rparr>"
    by (simp add: initialChatState_def)
  then show ?thesis
    using f by (simp add: syncChatsLoop_as_fold initialChatState_def)
qed


lemma second_run_disabled:
  assumes run: "syncChats fuel P S v = Some r1" and T: "\<not> syncChatsFlag S \<or> apiKey S = []"
  shows "\<exists>r2. syncChats fuel P S (csVault (chatFinal r1)) = Some r2
                \<and> csWrites (chatFinal r2) = []
                \<and> chatOutcome r2 = chatOutcome r1
                \<and> csVault (chatFinal r2) = csVault (chatFinal r1)"
proof -
  have "r1 = \<lparr>chatOutcome = (if \<not> syncChatsFlag S then Skipped else MissingApiKey),
              chatFinal = initialChatState v\<rparr>"
    using run T by (auto simp: syncChats_def split: if_splits)
  then show ?thesis
    using T by (auto simp: syncChats_def initialChatState_def)
qed

lemma second_run_folder_failed:
  assumes run: "syncChats fuel P S v = Some r1"
    and en: "syncChatsFlag S" "apiKey S \<noteq> []"
    and fail: "ensureFolderExists v (normalizePath P (chatFolderPath S)) = Inl e"
  shows "\<exists>r2. syncChats fuel P S (csVault (chatFinal r1)) = Some r2
                \<and> csWrites (chatFinal r2) = []
                \<and> chatOutcome r2 = chatOutcome r1
                \<and> csVault (chatFinal r2) = csVault (chatFinal r1)"
proof -
  have r1: "r1 = \<lparr>chatOutcome = Failed e, chatFinal = initialChatState v\<rparr>"
    using run en fail by (simp add: syncChats_def)
  have "syncChats fuel P S v = Some \<lparr>chatOutcome = Failed e, chatFinal = initialChatState v\<rparr>"
    using en fail by (simp add: syncChats_def)
  then show ?thesis
    unfolding r1 by (simp add: initialChatState_def)
qed

lemma second_run_loop:
  assumes run: "syncChats fuel P S v = Some r1"
    and en: "syncChatsFlag S" "apiKey S \<noteq> []"
    and ok: "ensureFolderExists v (normalizePath P (chatFolderPath S)) = Inr v1"
    and nolog: "csLogged (chatFinal r1) = []"
    and compat: "\<forall>c\<in>set (csHandled (chatFinal r1)). \<forall>c'\<in>set (csHandled (chatFinal r1)).
            getChatFilePath P S c (normalizePath P (chatFolderPath S))
              = getChatFilePath P S c' (normalizePath P (chatFolderPath S)) \<longrightarrow>
            formatChatMarkdown P c = formatChatMarkdown P c'"
  shows "\<exists>r2. syncChats fuel P S (csVault (chatFinal r1)) = Some r2
                \<and> csWrites (chatFinal r2) = []
                \<and> chatOutcome r2 = chatOutcome r1
                \<and> csVault (chatFinal r2) = csVault (chatFinal r1)"
proof -
  let ?folder = "normalizePath P (chatFolderPath S)"
  let ?out = "\<lambda>res. case res of None \<Rightarrow> Complete | Some e \<Rightarrow> Failed e"
  have unfold: "syncChats fuel P S w =
      (case syncChatsLoop fuel P S ?folder None (initialChatState w1) of
         None \<Rightarrow> None
       | Some (res, st) \<Rightarrow> Some \<lparr>chatOutcome = ?out res, chatFinal = st\<rparr>)"
    if "ensureFolderExists w ?folder = Inr w1" for w w1
    using that en by (auto simp: syncChats_def split: option.splits)
  obtain res st1 where
    l1: "syncChatsLoop fuel P S ?folder None (initialChatState v1) = Some (res, st1)"
    and r1: "r1 = \<lparr>chatOutcome = ?out res, chatFinal = st1\<rparr>"
    using run unfolding unfold [OF ok]
    by (cases "syncChatsLoop fuel P S ?folder None (initialChatState v1)") auto
  have "\<exists>cs. fetchedChats fuel P S None 0 = Some (res, cs)
             \<and> st1 = foldl (processChat P S ?folder) (initialChatState v1) cs"
    using l1 unfolding syncChatsLoop_as_fold
    by (cases "fetchedChats fuel P S None (processedChats (initialChatState v1))")
       (auto simp: initialChatState_def)
  then obtain cs where f: "fetchedChats fuel P S None 0 = Some (res, cs)"
    and fold: "st1 = foldl (processChat P S ?folder) (initialChatState v1) cs"
    by blast
  have handled: "csHandled st1 = cs"
    unfolding fold by (simp add: foldl_processChat_fields initialChatState_def)
  have "vaultFolders (csVault st1) = vaultFolders v1"
    unfolding fold by (simp add: foldl_processChat_folders initialChatState_def)
  then have folders: "?folder \<in> set (vaultFolders (csVault st1))"
    using ensureFolderExists_member [OF ok] by simp
  have e2: "ensureFolderExists (csVault st1) ?folder = Inr (csVault st1)"
    by (rule ensureFolderExists_present [OF folders])
  have l2: "syncChatsLoop fuel P S ?folder None (initialChatState (csVault st1)) =
       Some (res, \<lparr>csVault = csVault st1, processedChats = length cs, csHandled = cs,
                   csWrites = [], csLogged = []\<rparr>)"
  proof -
    have fin: "chatFinal r1 = st1" unfolding r1 by simp
    have n1: "csLogged st1 = []" using nolog unfolding fin .
    have hc: "csHandled (chatFinal r1) = cs" unfolding fin by (rule handled)
    have c1: "\<forall>c\<in>set cs. \<forall>c'\<in>set cs.
       getChatFilePath P S c ?folder = getChatFilePath P S c' ?folder \<longrightarrow>
       formatChatMarkdown P c = formatChatMarkdown P c'"
      using compat unfolding hc .
    show ?thesis
      by (rule second_loop_writes_nothing [OF f fold n1 c1])
  qed
  have "syncChats fuel P S (csVault st1) =
          Some \<lparr>chatOutcome = ?out res,
                chatFinal = \<lparr>csVault = csVault st1, processedChats = length cs, csHandled = cs,
                   csWrites = [], csLogged = []\<rparr>\<rparr>"
    unfolding unfold [OF e2] l2 by simp
  then show ?thesis
    unfolding r1 by simp
qed


text \<open>
  Claim C4, as amended. \<open>processChatFile\<close> issues a write only for the rendered text of the
  chat, at its target path, and only when that text differs from the text stored there.
  Consequently, when a run of chat sync has logged no processing error and the chats it
  handled that share a target path render to the same text (as they do when all target
  paths differ), a second run over the same remote data issues no write and leaves the
  vault as it is.
\<close>

theorem chat_sync_idempotent:
  "(\<exists>r. processChatFile P S v c folder = Inr r
        \<and> ((p, t) \<in> set (pcWrites r) \<longrightarrow>
             getChatFilePath P S c folder = Inr p \<and> t = formatChatMarkdown P c
             \<and> adapterRead v p \<noteq> Some t))
   \<and> (syncChats fuel P S v = Some r1
      \<and> csLogged (chatFinal r1) = []
      \<and> (\<forall>c\<in>set (csHandled (chatFinal r1)). \<forall>c'\<in>set (csHandled (chatFinal r1)).
            getChatFilePath P S c (normalizePath P (chatFolderPath S))
              = getChatFilePath P S c' (normalizePath P (chatFolderPath S)) \<longrightarrow>
            formatChatMarkdown P c = formatChatMarkdown P c')
      \<longrightarrow> (\<exists>r2. syncChats fuel P S (csVault (chatFinal r1)) = Some r2
                \<and> csWrites (chatFinal r2) = []
                \<and> chatOutcome r2 = chatOutcome r1
                \<and> csVault (chatFinal r2) = csVault (chatFinal r1)))"
proof (rule conjI)
  have "(p, t) \<in> set (pcWrites (processChatFileResult P S v c folder)) \<longrightarrow>
      getChatFilePath P S c folder = Inr p \<and> t = formatChatMarkdown P c
      \<and> adapterRead v p \<noteq> Some t"
    by (auto simp: processChatFile_writes split: sum.splits if_splits)
  then show "\<exists>r. processChatFile P S v c folder = Inr r
        \<and> ((p, t) \<in> set (pcWrites r) \<longrightarrow>
             getChatFilePath P S c folder = Inr p \<and> t = formatChatMarkdown P c
             \<and> adapterRead v p \<noteq> Some t)"
    by (simp add: processChatFile_returns)
next
  let ?folder = "normalizePath P (chatFolderPath S)"
  let ?compat = "\<forall>c\<in>set (csHandled (chatFinal r1)). \<forall>c'\<in>set (csHandled (chatFinal r1)).
            getChatFilePath P S c ?folder = getChatFilePath P S c' ?folder \<longrightarrow>
            formatChatMarkdown P c = formatChatMarkdown P c'"
  let ?goal = "\<exists>r2. syncChats fuel P S (csVault (chatFinal r1)) = Some r2
                \<and> csWrites (chatFinal r2) = []
                \<and> chatOutcome r2 = chatOutcome r1
                \<and> csVault (chatFinal r2) = csVault (chatFinal r1)"
  show "syncChats fuel P S v = Some r1 \<and> csLogged (chatFinal r1) = [] \<and> ?compat \<longrightarrow> ?goal"
  proof (rule impI)
    assume asm: "syncChats fuel P S v = Some r1 \<and> csLogged (chatFinal r1) = [] \<and> ?compat"
    then have run: "syncChats fuel P S v = Some r1" by (rule conjunct1)
    from asm have nolog: "csLogged (chatFinal r1) = []" by (rule conjunct2 [THEN conjunct1])
    from asm have compat: ?compat by (rule conjunct2 [THEN conjunct2])
    show ?goal
    proof (cases "\<not> syncChatsFlag S \<or> apiKey S = []")
      case True
      then show ?thesis by (rule second_run_disabled [OF run])
    next
      case False
      then have en: "syncChatsFlag S" "apiKey S \<noteq> []" by simp_all
      show ?thesis
      proof (cases "ensureFolderExists v ?folder")
        case (Inl e)
        then show ?thesis by (rule second_run_folder_failed [OF run en])
      next
        case (Inr v1)
        show ?thesis by (rule second_run_loop [OF run en Inr nolog compat])
      qed
    qed
  qed
qed

lemma perChat_first_run:
  "map_option (\<lambda>r. (csLogged (chatFinal r), csHandled (chatFinal r)))
     (syncChats 1 (chatService [sampleChat ''a'', sampleChat ''b''] None)
        (sampleSettings ''per-chat'' 50) emptyVault)
   = Some ([], [sampleChat ''a'', sampleChat ''b''])"
  by code_simp

lemma perChat_paths:
  "getChatFilePath (chatService [sampleChat ''a'', sampleChat ''b''] None)
     (sampleSettings ''per-chat'' 50) (sampleChat ''a'') ''Limitless Chats''
     = Inr ''Limitless Chats/Plan - a.md''"
  "getChatFilePath (chatService [sampleChat ''a'', sampleChat ''b''] None)
     (sampleSettings ''per-chat'' 50) (sampleChat ''b'') ''Limitless Chats''
     = Inr ''Limitless Chats/Plan - b.md''"
  by code_simp+

theorem chat_sync_idempotent_witness:
  "\<exists>r1 r2. syncChats 1 (chatService [sampleChat ''a'', sampleChat ''b''] None)
             (sampleSettings ''per-chat'' 50) emptyVault = Some r1
         \<and> csLogged (chatFinal r1) = []
         \<and> csHandled (chatFinal r1) = [sampleChat ''a'', sampleChat ''b'']
         \<and> syncChats 1 (chatService [sampleChat ''a'', sampleChat ''b''] None)
             (sampleSettings ''per-chat'' 50) (csVault (chatFinal r1)) = Some r2
         \<and> csWrites (chatFinal r2) = []"
proof -
  let ?P = "chatService [sampleChat ''a'', sampleChat ''b''] None"
  let ?S = "sampleSettings ''per-chat'' 50"
  obtain r1 where r1: "syncChats 1 ?P ?S emptyVault = Some r1"
    and l: "csLogged (chatFinal r1) = []"
    and h: "csHandled (chatFinal r1) = [sampleChat ''a'', sampleChat ''b'']"
    using perChat_first_run by (cases "syncChats 1 ?P ?S emptyVault") auto
  have n: "normalizePath ?P (chatFolderPath ?S) = ''Limitless Chats''"
    by (simp add: chatService_def sampleSettings_def)
  have "\<exists>r2. syncChats 1 ?P ?S (csVault (chatFinal r1)) = Some r2
            \<and> csWrites (chatFinal r2) = []"
    using chat_sync_idempotent [of ?P ?S emptyVault "sampleChat ''a''" "''f''" "''p''" "''t''" 1 r1,
                                      THEN conjunct2]
          r1 l h n
    by (simp add: perChat_paths) blast
  then show ?thesis using r1 l h by blast
qed

lemma daily_twice:
  "map_option (\<lambda>r. map fst (csWrites (chatFinal r)))
     (chatSyncTwice 1 (chatService [sampleChat ''a'', sampleChat ''b''] None)
        (sampleSettings ''daily'' 50) emptyVault)
   = Some [''Limitless Chats/2025-02-09 - Chats.md'', ''Limitless Chats/2025-02-09 - Chats.md'']"
  by code_simp

text \<open>
  Against claim C4 as worded: in the daily layout two chats of the same day share a path;
  each run writes both, the second run as well.
\<close>

theorem shared_path_counterexample:
  "map_option (\<lambda>r. length (csWrites (chatFinal r)))
     (chatSyncTwice 1 (chatService [sampleChat ''a'', sampleChat ''b''] None)
        (sampleSettings ''daily'' 50) emptyVault) = Some 2"
proof -
  let ?run = "chatSyncTwice 1 (chatService [sampleChat ''a'', sampleChat ''b''] None)
        (sampleSettings ''daily'' 50) emptyVault"
  obtain r where "?run = Some r" and "map fst (csWrites (chatFinal r)) =
      [''Limitless Chats/2025-02-09 - Chats.md'', ''Limitless Chats/2025-02-09 - Chats.md'']"
    using daily_twice by (cases ?run) auto
  then have "?run = Some r" and "length (map fst (csWrites (chatFinal r))) = 2"
    by simp_all
  then show ?thesis by simp
qed


subsection \<open>Lifelog sync\<close>

subsubsection \<open>The newest synced date\<close>










subsubsection \<open>The date walk\<close>



lemma lifelogWalk_writes:
  "lifelogWalk fuel P folder endDate currentDate st = Some (res, st') \<Longrightarrow>
     \<exists>ws. wWrites st' = wWrites st @ ws
          \<and> (\<forall>w\<in>set ws. writtenFor fuel P folder (fst w))
          \<and> (\<forall>q. q \<notin> fst ` set ws \<longrightarrow>
                 adapterRead (wVault st') q = adapterRead (wVault st) q)"
proof (induction fuel P folder endDate currentDate st arbitrary: res st'
       rule: lifelogWalk.induct)
  case (1 fuel P folder endDate currentDate st)
  note run = "1.prems" [unfolded lifelogWalk.simps [of fuel P folder endDate currentDate st]]
  let ?goal = "\<exists>ws. wWrites st' = wWrites st @ ws
          \<and> (\<forall>w\<in>set ws. writtenFor fuel P folder (fst w))
          \<and> (\<forall>q. q \<notin> fst ` set ws \<longrightarrow>
                 adapterRead (wVault st') q = adapterRead (wVault st) q)"
  have trivial: ?goal if "wWrites st' = wWrites st" "wVault st' = wVault st"
  proof -
    have "wWrites st' = wWrites st @ []
          \<and> (\<forall>w\<in>set []. writtenFor fuel P folder (fst w))
          \<and> (\<forall>q. q \<notin> fst ` set ([] :: (string \<times> string) list) \<longrightarrow>
                 adapterRead (wVault st') q = adapterRead (wVault st) q)"
      using that by simp
    then show ?thesis by blast
  qed
  show ?case
  proof (cases "currentDate \<le> endDate")
    case False
    then have "st' = st" using run by simp
    then show ?thesis using trivial by simp
  next
    case le: True
    show ?thesis
    proof (cases "getLifelogs fuel P currentDate")
      case None
      then show ?thesis using run le by simp
    next
      case (Some result)
      show ?thesis
      proof (cases result)
        case (Inl e)
        then have "st' = st\<lparr>wFetched := wFetched st @ [currentDate]\<rparr>"
          using run le Some by simp
        then show ?thesis using trivial by simp
      next
        case (Inr logs)
        let ?text = "joinWith ''\<newline>\<newline>'' (map (formatLifelogMarkdown P) logs)"
        let ?path = "lifelogPath folder currentDate"
        show ?thesis
        proof (cases "logs = []")
          case True
          let ?st1 = "st\<lparr>wFetched := wFetched st @ [currentDate]\<rparr>"
          have "lifelogWalk fuel P folder endDate (currentDate + msPerDay) ?st1 = Some (res, st')"
            using run le Some Inr True by simp
          from "1.IH"(2) [OF le Some Inr _ this] True
          show ?thesis by simp
        next
          case False
          have wf: "writtenFor fuel P folder ?path"
            unfolding writtenFor_def using Some Inr False by blast
          show ?thesis
          proof (cases "adapterWrite (wVault st) ?path ?text")
            case (Inl e)
            then have st': "st' = st\<lparr>wFetched := wFetched st @ [currentDate],
                                 wWrites := wWrites st @ [(?path, ?text)]\<rparr>"
              using run le Some \<open>result = Inr logs\<close> False by (simp add: Let_def)
            have "wWrites st' = wWrites st @ [(?path, ?text)]
                  \<and> (\<forall>w\<in>set [(?path, ?text)]. writtenFor fuel P folder (fst w))
                  \<and> (\<forall>q. q \<notin> fst ` set [(?path, ?text)] \<longrightarrow>
                         adapterRead (wVault st') q = adapterRead (wVault st) q)"
              using st' wf by simp
            then show ?thesis by blast
          next
            case (Inr v')
            let ?st1 = "\<lparr>wVault = v', wFetched = wFetched st @ [currentDate],
                          wWrites = wWrites st @ [(?path, ?text)]\<rparr>"
            have "lifelogWalk fuel P folder endDate (currentDate + msPerDay) ?st1
                    = Some (res, st')"
              using run le Some \<open>result = Inr logs\<close> False Inr by (simp add: Let_def)
            from "1.IH"(1) [OF le Some \<open>result = Inr logs\<close> False refl refl Inr this]
            obtain ws where w1: "wWrites st' = wWrites ?st1 @ ws"
              and w2: "\<forall>w\<in>set ws. writtenFor fuel P folder (fst w)"
              and w3: "\<forall>q. q \<notin> fst ` set ws \<longrightarrow>
                         adapterRead (wVault st') q = adapterRead (wVault ?st1) q"
              by blast
            have r: "adapterRead v' q = adapterRead (wVault st) q" if "q \<noteq> ?path" for q
              using adapterWrite_read(1) [OF Inr] that by simp
            have "wWrites st' = wWrites st @ ((?path, ?text) # ws)
                  \<and> (\<forall>w\<in>set ((?path, ?text) # ws). writtenFor fuel P folder (fst w))
                  \<and> (\<forall>q. q \<notin> fst ` set ((?path, ?text) # ws) \<longrightarrow>
                         adapterRead (wVault st') q = adapterRead (wVault st) q)"
              using w1 w2 w3 wf r by simp
            then show ?thesis by blast
          qed
        qed
      qed
    qed
  qed
qed

lemma lifelogPath_inj:
  "lifelogPath folder d = lifelogPath folder d' \<Longrightarrow> isoDate d = isoDate d'"
  by (simp add: lifelogPath_def)

lemma getLifelogs_isoDate:
  "isoDate d = isoDate d' \<Longrightarrow> getLifelogs fuel P d = getLifelogs fuel P d'"
  by (simp add: getLifelogs_def)

lemma syncLifelogs_walk:
  assumes "syncLifelogs fuel P S now v = Some r"
  shows "(wFetched (lifelogFinal r) = [] \<and> wWrites (lifelogFinal r) = []
          \<and> vaultFiles (wVault (lifelogFinal r)) = vaultFiles v)
       \<or> (\<exists>v1 t res. apiKey S \<noteq> []
            \<and> ensureFolderExists v (normalizePath P (folderPath S)) = Inr v1
            \<and> (case getLastSyncedDate P S v1 of
                   Some lastSyncedDate \<Rightarrow> lastSyncedDate
                 | None \<Rightarrow> dateParse P (startDate S)) = Some t
            \<and> lifelogWalk fuel P (normalizePath P (folderPath S)) now t (initialWalkState v1)
                  = Some (res, lifelogFinal r))"
proof (cases "apiKey S = []")
  case True
  then show ?thesis using assms by (auto simp: syncLifelogs_def initialWalkState_def)
next
  case key: False
  show ?thesis
  proof (cases "ensureFolderExists v (normalizePath P (folderPath S))")
    case (Inl e)
    then show ?thesis using assms key by (auto simp: syncLifelogs_def initialWalkState_def)
  next
    case (Inr v1)
    have files: "vaultFiles v1 = vaultFiles v"
      using ensureFolderExists_member [OF Inr] by simp
    let ?start = "case getLastSyncedDate P S v1 of
                   Some lastSyncedDate \<Rightarrow> lastSyncedDate
                 | None \<Rightarrow> dateParse P (startDate S)"
    show ?thesis
    proof (cases ?start)
      case None
      then have "r = \<lparr>lifelogOutcome = Complete, lifelogFinal = initialWalkState v1\<rparr>"
        using assms key Inr by (simp add: syncLifelogs_def)
      then show ?thesis using files by (simp add: initialWalkState_def)
    next
      case (Some t)
      let ?walk = "lifelogWalk fuel P (normalizePath P (folderPath S)) now t (initialWalkState v1)"
      have "(case ?walk of
               None \<Rightarrow> None
             | Some (None, st) \<Rightarrow> Some \<lparr>lifelogOutcome = Complete, lifelogFinal = st\<rparr>
             | Some (Some e, st) \<Rightarrow> Some \<lparr>lifelogOutcome = Failed e, lifelogFinal = st\<rparr>)
            = Some r"
        using assms key Inr Some by (simp add: syncLifelogs_def)
      then have "\<exists>res. ?walk = Some (res, lifelogFinal r)"
        by (auto split: option.splits prod.splits)
      then show ?thesis using key Inr Some by blast
    qed
  qed
qed


text \<open>
  Claim C7. When lifelog sync has run, a date of its walk for which \<open>getLifelogs\<close> returned
  no lifelog has no write among the writes issued, and the file at its path has the text
  it had before the sync (or is still absent).
\<close>

theorem empty_date_untouched:
  assumes run: "syncLifelogs fuel P S now v = Some r"
    and visited: "d \<in> set (wFetched (lifelogFinal r))"
    and empty: "getLifelogs fuel P d = Some (Inr [])"
  shows "lifelogPath (normalizePath P (folderPath S)) d \<notin> fst ` set (wWrites (lifelogFinal r))
       \<and> adapterRead (wVault (lifelogFinal r)) (lifelogPath (normalizePath P (folderPath S)) d)
           = adapterRead v (lifelogPath (normalizePath P (folderPath S)) d)"
proof -
  let ?folder = "normalizePath P (folderPath S)"
  let ?path = "lifelogPath ?folder d"
  have not_written: "\<not> writtenFor fuel P ?folder ?path"
  proof
    assume "writtenFor fuel P ?folder ?path"
    then obtain d' logs where p: "?path = lifelogPath ?folder d'"
      and g: "getLifelogs fuel P d' = Some (Inr logs)" and ne: "logs \<noteq> []"
      unfolding writtenFor_def by blast
    have "getLifelogs fuel P d = getLifelogs fuel P d'"
      by (rule getLifelogs_isoDate [OF lifelogPath_inj [OF p]])
    then show False using empty g ne by simp
  qed
  from syncLifelogs_walk [OF run] show ?thesis
  proof
    assume "wFetched (lifelogFinal r) = [] \<and> wWrites (lifelogFinal r) = []
          \<and> vaultFiles (wVault (lifelogFinal r)) = vaultFiles v"
    then show ?thesis by (simp add: adapterRead_def)
  next
    assume "\<exists>v1 t res. apiKey S \<noteq> []
            \<and> ensureFolderExists v ?folder = Inr v1
            \<and> (case getLastSyncedDate P S v1 of
                   Some lastSyncedDate \<Rightarrow> lastSyncedDate
                 | None \<Rightarrow> dateParse P (startDate S)) = Some t
            \<and> lifelogWalk fuel P ?folder now t (initialWalkState v1) = Some (res, lifelogFinal r)"
    then obtain v1 t res where ens: "ensureFolderExists v ?folder = Inr v1"
      and walk: "lifelogWalk fuel P ?folder now t (initialWalkState v1) = Some (res, lifelogFinal r)"
      by blast
    obtain ws where ws: "wWrites (lifelogFinal r) = wWrites (initialWalkState v1) @ ws"
      and wf: "\<forall>w\<in>set ws. writtenFor fuel P ?folder (fst w)"
      and keep: "\<forall>q. q \<notin> fst ` set ws \<longrightarrow>
                 adapterRead (wVault (lifelogFinal r)) q = adapterRead (wVault (initialWalkState v1)) q"
      using lifelogWalk_writes [OF walk] by blast
    have notin: "?path \<notin> fst ` set ws"
      using wf not_written by auto
    have "adapterRead (wVault (lifelogFinal r)) ?path = adapterRead v1 ?path"
      using keep notin by (simp add: initialWalkState_def)
    moreover have "adapterRead v1 ?path = adapterRead v ?path"
      using ensureFolderExists_member [OF ens] by (simp add: adapterRead_def)
    moreover have "wWrites (lifelogFinal r) = ws"
      using ws by (simp add: initialWalkState_def)
    ultimately show ?thesis using notin by simp
  qed
qed

lemma example_lifelog_run:
  "map_option (\<lambda>r. (wFetched (lifelogFinal r), wWrites (lifelogFinal r),
                      vaultFiles (wVault (lifelogFinal r))))
     (syncLifelogs 1 lifelogService (sampleSettings ''daily'' 50) noonFeb10 syncedVault)
   = Some ([1739059200000, 1739145600000],
           [(''Limitless Lifelogs/2025-02-10.md'', ''new'')],
           [(''Limitless Lifelogs/2025-02-09.md'', ''old''),
            (''Limitless Lifelogs/2025-02-10.md'', ''new'')])"
  by code_simp

lemma example_lifelog_facts:
  "getLifelogs 1 lifelogService 1739059200000 = Some (Inr [])"
  "lifelogPath (normalizePath lifelogService (folderPath (sampleSettings ''daily'' 50)))
     1739059200000 = ''Limitless Lifelogs/2025-02-09.md''"
  "adapterRead syncedVault ''Limitless Lifelogs/2025-02-09.md'' = Some ''old''"
  "syncedBasenames lifelogService (sampleSettings ''daily'' 50) syncedVault = [''2025-02-09'']"
  "syncedTimes lifelogService (sampleSettings ''daily'' 50) syncedVault = [1739059200000]"
  "getLastSyncedDate lifelogService (sampleSettings ''daily'' 50) syncedVault
     = Some (Some 1739059200000)"
  by code_simp+

theorem empty_date_untouched_witness:
  "\<exists>r. syncLifelogs 1 lifelogService (sampleSettings ''daily'' 50) noonFeb10 syncedVault = Some r
       \<and> wFetched (lifelogFinal r) = [1739059200000, 1739145600000]
       \<and> getLifelogs 1 lifelogService 1739059200000 = Some (Inr [])
       \<and> wWrites (lifelogFinal r) = [(''Limitless Lifelogs/2025-02-10.md'', ''new'')]
       \<and> adapterRead (wVault (lifelogFinal r)) ''Limitless Lifelogs/2025-02-09.md'' = Some ''old''"
proof -
  let ?S = "sampleSettings ''daily'' 50"
  obtain r where r: "syncLifelogs 1 lifelogService ?S noonFeb10 syncedVault = Some r"
    and f: "wFetched (lifelogFinal r) = [1739059200000, 1739145600000]"
    and w: "wWrites (lifelogFinal r) = [(''Limitless Lifelogs/2025-02-10.md'', ''new'')]"
    using example_lifelog_run
    by (cases "syncLifelogs 1 lifelogService ?S noonFeb10 syncedVault") auto
  have "adapterRead (wVault (lifelogFinal r)) ''Limitless Lifelogs/2025-02-09.md'' = Some ''old''"
    using empty_date_untouched [of 1 lifelogService ?S noonFeb10 syncedVault r 1739059200000]
          r f example_lifelog_facts(1-3)
    by simp
  then show ?thesis using r f w example_lifelog_facts(1) by blast
qed





end
